theory Spec2Isabelle
  imports Main "HOL-Library.AList"
begin

section \<open>Thermo Tracker: the usage ledger engine of \<^verbatim>\<open>usage_manager.py\<close>\<close>

text \<open>
  The development embeds the class \<^verbatim>\<open>UsageGenerator\<close> of \<^verbatim>\<open>src/usage_manager.py\<close>:
  the worksheet it fills, the configuration dictionary it shares with the rest of the
  application, the console it talks to, and every method of \<^verbatim>\<open>_populate_usage\<close>.
  Methods keep their names without the leading underscore.
\<close>

subsection \<open>Errors\<close>

text \<open>Every exception a modelled statement can raise is a value; \<open>Inl\<close> carries it.\<close>

datatype error = ValueError | AttributeError | KeyError | TypeError | EOFError | OverflowError

definition then_do :: "error + 'a \<Rightarrow> ('a \<Rightarrow> error + 'b) \<Rightarrow> error + 'b" where
  "then_do m f = (case m of Inl e \<Rightarrow> Inl e | Inr x \<Rightarrow> f x)"

subsection \<open>Cell values and their arithmetic\<close>

text \<open>
  A cell holds \<^verbatim>\<open>None\<close>, an \<^verbatim>\<open>int\<close>, a \<^verbatim>\<open>float\<close> or a \<^verbatim>\<open>str\<close>.
  Floating-point numbers are the type parameter \<open>'f\<close>; their operations are taken
  from the environment record below, so every result holds for any float arithmetic.
\<close>

datatype 'f val = NoneV | IntV int | FloatV 'f | StrV string

subsection \<open>The storage collaborator: a worksheet\<close>

text \<open>
  The worksheet is the cell grid of the spreadsheet library: a dictionary from
  \<open>(row, column)\<close> to cell objects, kept here as an association list. A cell that lies
  in a merged range, other than the top-left one, is a read-only \<open>MergedCell\<close>
  whose value is \<^verbatim>\<open>None\<close>. The library's limits on the sheet size and on the
  characters of a string are outside the model.
\<close>

datatype 'f cell = Cell "'f val" | MergedCell

record 'f worksheet =
  cells :: "((int \<times> int) \<times> 'f cell) list"
  merged_cells :: "(int \<times> int \<times> int \<times> int) list"
  comments :: "((int \<times> int) \<times> string) list"
  alignments :: "((int \<times> int) \<times> (bool \<times> string \<times> string)) list"

fun cell_value :: "'f cell \<Rightarrow> 'f val" where
  "cell_value (Cell v) = v"
| "cell_value MergedCell = NoneV"

text \<open>The value seen at a coordinate: \<^verbatim>\<open>None\<close> where no cell object exists.\<close>

definition value_at :: "'f worksheet \<Rightarrow> int \<Rightarrow> int \<Rightarrow> 'f val" where
  "value_at ws row column =
     (case map_of (cells ws) (row, column) of None \<Rightarrow> NoneV | Some c \<Rightarrow> cell_value c)"

text \<open>
  \<^verbatim>\<open>Worksheet.max_row\<close>: the largest row index of any cell object, and 1 for a
  sheet without cells.
\<close>

definition max_row :: "'f worksheet \<Rightarrow> int" where
  "max_row ws = (case map (\<lambda>kc. fst (fst kc)) (cells ws) of [] \<Rightarrow> 1 | r # rs \<Rightarrow> fold max rs r)"

text \<open>\<^verbatim>\<open>Worksheet._get_cell\<close>: looking a coordinate up creates the cell object.\<close>

definition get_cell :: "'f worksheet \<Rightarrow> int \<Rightarrow> int \<Rightarrow> 'f worksheet" where
  "get_cell ws row column =
     (if map_of (cells ws) (row, column) = None
      then ws\<lparr>cells := cells ws @ [((row, column), Cell NoneV)]\<rparr>
      else ws)"

text \<open>
  \<^verbatim>\<open>Worksheet.cell(row, column, value)\<close>: coordinates below 1 raise
  \<^verbatim>\<open>ValueError\<close>; the cell is created when absent; a value other than
  \<^verbatim>\<open>None\<close> is stored, which a merged cell refuses with \<^verbatim>\<open>AttributeError\<close>.
\<close>

definition ws_cell :: "'f worksheet \<Rightarrow> int \<Rightarrow> int \<Rightarrow> 'f val \<Rightarrow> error + 'f worksheet" where
  "ws_cell ws row column v =
     (if row < 1 \<or> column < 1 then Inl ValueError
      else let ws1 = get_cell ws row column in
        if v = NoneV then Inr ws1
        else (case map_of (cells ws1) (row, column) of
                Some MergedCell \<Rightarrow> Inl AttributeError
              | _ \<Rightarrow> Inr (ws1\<lparr>cells := AList.update (row, column) (Cell v) (cells ws1)\<rparr>)))"

subsection \<open>The configuration dictionary\<close>

text \<open>The keys are the members of \<^verbatim>\<open>constants.ConfigKeys\<close>; the values are JSON scalars.\<close>

datatype ConfigKeys =
  EXCEL_FOLDER | REGISTRY_FILE | RADIATORS_OWNED | USAGE_FOLDER_PATH | USAGE_NAME
  | DATE_FORMAT | DATE_INPUT_MODE | LAST_START_ROW | START_ROW

datatype json = JInt int | JStr string

type_synonym config = "ConfigKeys \<Rightarrow> json option"

subsection \<open>The state of one run\<close>

text \<open>
  \<open>stdin\<close> holds the lines the user will type; \<open>prompts\<close> records, in order, the
  questions put to the user, each with the line that was accepted as its answer.
\<close>

datatype prompt =
  USAGE_DATA_ENTRY_INTRO | VALVE_SETTING_ENTRY | VALVE_SETTING_UPDATE
  | ASK_DAY | ASK_MONTH | ASK_YEAR | ASK_CONFIRM_DATE
  | ASK_VALVE_SETTING | ASK_MODIFY string
  | ASK_VALVE_CHANGE | ASK_NEW_VALVE | ASK_APPLY_CHANGE
  | ASK_RAW_READING | ASK_ADD_NOTE | ASK_NOTE

record 'f state =
  worksheet :: "'f worksheet"
  config_data :: config
  config_update :: bool
  stdin :: "string list"
  prompts :: "(prompt \<times> string) list"

subsection \<open>The environment of one run\<close>

text \<open>
  What the run reads and never changes: whether the usage file exists on disk
  (\<^verbatim>\<open>os.path.exists(self.file_path)\<close>; the file is written only after
  \<^verbatim>\<open>_populate_usage\<close>), the data rows of the registry worksheet, the clock, and the
  library functions the code calls: \<^verbatim>\<open>strftime\<close>, the validators of the input
  library (the answer a typed line stands for, if it is a valid one), and float arithmetic.
\<close>

type_synonym date = "int \<times> int \<times> int"

record 'f env =
  file_exists :: bool
  registry_rows :: "'f val list list"
  now :: date
  strftime :: "date \<Rightarrow> string \<Rightarrow> string"
  yes_no_of :: "string \<Rightarrow> bool option"
  str_of :: "string \<Rightarrow> string option"
  int_of :: "string \<Rightarrow> int option"
  fmul :: "'f \<Rightarrow> 'f \<Rightarrow> 'f"
  fadd :: "'f \<Rightarrow> 'f \<Rightarrow> 'f"
  f_of_int :: "int \<Rightarrow> 'f option"

text \<open>Python's \<^verbatim>\<open>a * b\<close> and \<^verbatim>\<open>a + b\<close> on cell values.\<close>

definition to_float :: "'f env \<Rightarrow> int \<Rightarrow> error + 'f" where
  "to_float E n = (case f_of_int E n of None \<Rightarrow> Inl OverflowError | Some x \<Rightarrow> Inr x)"

fun py_mul :: "'f env \<Rightarrow> 'f val \<Rightarrow> 'f val \<Rightarrow> error + 'f val" where
  "py_mul E (IntV a) (IntV b) = Inr (IntV (a * b))"
| "py_mul E (FloatV a) (IntV b) = then_do (to_float E b) (\<lambda>y. Inr (FloatV (fmul E a y)))"
| "py_mul E (IntV a) (FloatV b) = then_do (to_float E a) (\<lambda>x. Inr (FloatV (fmul E x b)))"
| "py_mul E (FloatV a) (FloatV b) = Inr (FloatV (fmul E a b))"
| "py_mul E (StrV a) (IntV b) = Inr (StrV (concat (replicate (nat b) a)))"
| "py_mul E (IntV a) (StrV b) = Inr (StrV (concat (replicate (nat a) b)))"
| "py_mul E _ _ = Inl TypeError"

fun py_add :: "'f env \<Rightarrow> 'f val \<Rightarrow> 'f val \<Rightarrow> error + 'f val" where
  "py_add E (IntV a) (IntV b) = Inr (IntV (a + b))"
| "py_add E (FloatV a) (IntV b) = then_do (to_float E b) (\<lambda>y. Inr (FloatV (fadd E a y)))"
| "py_add E (IntV a) (FloatV b) = then_do (to_float E a) (\<lambda>x. Inr (FloatV (fadd E x b)))"
| "py_add E (FloatV a) (FloatV b) = Inr (FloatV (fadd E a b))"
| "py_add E (StrV a) (StrV b) = Inr (StrV (a @ b))"
| "py_add E _ _ = Inl TypeError"

text \<open>\<^verbatim>\<open>range(a, b)\<close>.\<close>

definition py_range :: "int \<Rightarrow> int \<Rightarrow> int list" where
  "py_range a b = [a..b - 1]"

subsection \<open>The input collaborator\<close>

text \<open>
  A prompt of the input library reads lines until one is valid and returns the
  validated answer; the end of the input raises \<^verbatim>\<open>EOFError\<close>.
\<close>

fun read_valid ::
  "(string \<Rightarrow> 'a option) \<Rightarrow> string list \<Rightarrow> ('a \<times> string \<times> string list) option" where
  "read_valid f [] = None"
| "read_valid f (l # ls) = (case f l of Some a \<Rightarrow> Some (a, l, ls) | None \<Rightarrow> read_valid f ls)"

definition ask :: "(string \<Rightarrow> 'a option) \<Rightarrow> prompt \<Rightarrow> 'f state \<Rightarrow> error + ('a \<times> 'f state)" where
  "ask f p s =
     (case read_valid f (stdin s) of
        None \<Rightarrow> Inl EOFError
      | Some (a, l, rest) \<Rightarrow> Inr (a, s\<lparr>stdin := rest, prompts := prompts s @ [(p, l)]\<rparr>))"

definition inputYesNo :: "'f env \<Rightarrow> prompt \<Rightarrow> 'f state \<Rightarrow> error + (bool \<times> 'f state)" where
  "inputYesNo E p s = ask (yes_no_of E) p s"

definition inputStr :: "'f env \<Rightarrow> prompt \<Rightarrow> 'f state \<Rightarrow> error + (string \<times> 'f state)" where
  "inputStr E p s = ask (str_of E) p s"

definition in_bounds :: "int option \<Rightarrow> int option \<Rightarrow> int \<Rightarrow> bool" where
  "in_bounds lo hi n =
     ((case lo of None \<Rightarrow> True | Some a \<Rightarrow> a \<le> n) \<and> (case hi of None \<Rightarrow> True | Some b \<Rightarrow> n \<le> b))"

definition inputInt ::
  "'f env \<Rightarrow> int option \<Rightarrow> int option \<Rightarrow> prompt \<Rightarrow> 'f state \<Rightarrow> error + (int \<times> 'f state)" where
  "inputInt E lo hi p s =
     ask (\<lambda>l. case int_of E l of None \<Rightarrow> None
               | Some n \<Rightarrow> if in_bounds lo hi n then Some n else None) p s"

text \<open>\<^verbatim>\<open>utils.display_user_info\<close>: shows a message and waits for one line.\<close>

definition display_user_info :: "prompt \<Rightarrow> 'f state \<Rightarrow> error + 'f state" where
  "display_user_info p s =
     (case stdin s of
        [] \<Rightarrow> Inl EOFError
      | l # ls \<Rightarrow> Inr (s\<lparr>stdin := ls, prompts := prompts s @ [(p, l)]\<rparr>))"

subsection \<open>Reading and writing cells from the engine\<close>

text \<open>\<^verbatim>\<open>self.worksheet.cell(row=r, column=c).value\<close> and
  \<^verbatim>\<open>self.worksheet.cell(row=r, column=c, value=v)\<close>.\<close>

definition read_cell :: "int \<Rightarrow> int \<Rightarrow> 'f state \<Rightarrow> error + ('f val \<times> 'f state)" where
  "read_cell row column s =
     then_do (ws_cell (worksheet s) row column NoneV)
       (\<lambda>ws. Inr (value_at ws row column, s\<lparr>worksheet := ws\<rparr>))"

definition write_cell :: "int \<Rightarrow> int \<Rightarrow> 'f val \<Rightarrow> 'f state \<Rightarrow> error + 'f state" where
  "write_cell row column v s =
     then_do (ws_cell (worksheet s) row column v) (\<lambda>ws. Inr (s\<lparr>worksheet := ws\<rparr>))"

text \<open>
  \<^verbatim>\<open>_get_usage_block_info\<close>: a missing key raises \<^verbatim>\<open>KeyError\<close>; a value
  that is not an integer makes the \<^verbatim>\<open>range\<close> built from it raise \<^verbatim>\<open>TypeError\<close>.
\<close>

definition config_int :: "config \<Rightarrow> ConfigKeys \<Rightarrow> error + int" where
  "config_int cfg k =
     (case cfg k of None \<Rightarrow> Inl KeyError | Some (JInt n) \<Rightarrow> Inr n | Some (JStr x) \<Rightarrow> Inl TypeError)"

definition get_usage_block_info :: "'f state \<Rightarrow> error + (int \<times> int)" where
  "get_usage_block_info s =
     then_do (config_int (config_data s) RADIATORS_OWNED)
       (\<lambda>radiators_owned. then_do (config_int (config_data s) START_ROW)
          (\<lambda>start_row. Inr (radiators_owned, start_row)))"

text \<open>\<^verbatim>\<open>_fill_col\<close>: \<open>get_value\<close> may itself prompt the user or read cells.\<close>

fun fill_col ::
  "int list \<Rightarrow> (int \<Rightarrow> 'f state \<Rightarrow> error + ('f val \<times> 'f state)) \<Rightarrow> int \<Rightarrow> 'f state \<Rightarrow> error + 'f state" where
  "fill_col [] get_value col s = Inr s"
| "fill_col (row # rows) get_value col s =
     then_do (get_value row s)
       (\<lambda>(v, s1). then_do (write_cell row col v s1) (\<lambda>s2. fill_col rows get_value col s2))"

subsection \<open>Registry rows\<close>

text \<open>\<^verbatim>\<open>_fill_registry_data\<close>: each registry row goes to the first empty row, from column 2.\<close>

fun fill_registry_row :: "int \<Rightarrow> int \<Rightarrow> 'f val list \<Rightarrow> 'f worksheet \<Rightarrow> error + 'f worksheet" where
  "fill_registry_row empty_row col_offset [] ws = Inr ws"
| "fill_registry_row empty_row col_offset (v # vs) ws =
     then_do (ws_cell ws empty_row col_offset v)
       (\<lambda>ws1. fill_registry_row empty_row (col_offset + 1) vs ws1)"

fun fill_registry_rows :: "'f val list list \<Rightarrow> 'f worksheet \<Rightarrow> error + 'f worksheet" where
  "fill_registry_rows [] ws = Inr ws"
| "fill_registry_rows (row # rows) ws =
     then_do (fill_registry_row (max_row ws + 1) 2 row ws) (\<lambda>ws1. fill_registry_rows rows ws1)"

definition fill_registry_data :: "'f env \<Rightarrow> 'f state \<Rightarrow> error + 'f state" where
  "fill_registry_data E s =
     then_do (fill_registry_rows (registry_rows E) (worksheet s))
       (\<lambda>ws. Inr (s\<lparr>worksheet := ws\<rparr>))"

definition display_data_entry_intro :: "'f state \<Rightarrow> error + 'f state" where
  "display_data_entry_intro s = display_user_info USAGE_DATA_ENTRY_INTRO s"

subsection \<open>The row-block tracker\<close>

text \<open>
  \<^verbatim>\<open>_update_start_rows\<close>: \<^verbatim>\<open>dict.get\<close> with a default never raises, so the
  method has no failure branch.
\<close>

definition update_start_rows :: "'f state \<Rightarrow> 'f state" where
  "update_start_rows s =
     (let start_row = max_row (worksheet s) + 1;
          last_start_row = (case config_data s START_ROW of
                              None \<Rightarrow> JInt start_row | Some v \<Rightarrow> v)
      in s\<lparr>config_data := (config_data s)(START_ROW \<mapsto> JInt start_row,
                                          LAST_START_ROW \<mapsto> last_start_row),
           config_update := True\<rparr>)"

text \<open>
  \<^verbatim>\<open>ConfigManager.save_config\<close> writes the dictionary to the JSON file when the
  update flag is set; the file's content is \<open>None\<close> while it does not exist.
\<close>

definition save_config :: "'f state \<Rightarrow> config option \<Rightarrow> config option" where
  "save_config s disk = (if config_update s then Some (config_data s) else disk)"

subsection \<open>Facts about the console used by the termination proofs\<close>

lemma then_do_Inr [simp]:
  "then_do m f = Inr y \<longleftrightarrow> (\<exists>x. m = Inr x \<and> f x = Inr y)"
  by (cases m) (simp_all add: then_do_def)

lemma then_do_simps [simp]:
  "then_do (Inl e) f = Inl e" "then_do (Inr x) f = f x"
  by (simp_all add: then_do_def)

lemma then_do_cong [fundef_cong]:
  "m = m' \<Longrightarrow> (\<And>x. m' = Inr x \<Longrightarrow> f x = f' x) \<Longrightarrow> then_do m f = then_do m' f'"
  by (cases m') (simp_all add: then_do_def)

lemma read_valid_length:
  "read_valid f ls = Some (a, l, rest) \<Longrightarrow> length rest < length ls"
  by (induction ls) (auto split: option.splits)

lemma ask_stdin:
  "ask f p s = Inr (a, s') \<Longrightarrow> length (stdin s') < length (stdin s)"
  by (auto simp: ask_def split: option.splits dest: read_valid_length)

lemma ask_worksheet:
  "ask f p s = Inr (a, s') \<Longrightarrow> worksheet s' = worksheet s \<and> config_data s' = config_data s"
  by (auto simp: ask_def split: option.splits)

lemma display_user_info_stdin:
  "display_user_info p s = Inr s' \<Longrightarrow> length (stdin s') < length (stdin s)"
  by (auto simp: display_user_info_def split: list.splits)

lemma read_cell_stdin:
  "read_cell r c s = Inr (v, s') \<Longrightarrow> stdin s' = stdin s \<and> config_data s' = config_data s"
  by (auto simp: read_cell_def)

lemma write_cell_stdin:
  "write_cell r c v s = Inr s' \<Longrightarrow> stdin s' = stdin s \<and> config_data s' = config_data s"
  by (auto simp: write_cell_def)

lemma fill_col_stdin:
  assumes "\<And>row t v t'. get_value row t = Inr (v, t') \<Longrightarrow> length (stdin t') \<le> length (stdin t)"
  shows "fill_col rows get_value col s = Inr s' \<Longrightarrow> length (stdin s') \<le> length (stdin s)"
proof (induction rows arbitrary: s)
  case Nil
  then show ?case by simp
next
  case (Cons row rows)
  then obtain v s1 s2 where g: "get_value row s = Inr (v, s1)"
    and w: "write_cell row col v s1 = Inr s2" and r: "fill_col rows get_value col s2 = Inr s'"
    by auto
  from assms[OF g] write_cell_stdin[OF w] Cons.IH[OF r] show ?case by simp
qed

subsection \<open>Dates\<close>

definition format_date :: "'f env \<Rightarrow> 'f state \<Rightarrow> date \<Rightarrow> error + string" where
  "format_date E s d =
     (case config_data s DATE_FORMAT of
        None \<Rightarrow> Inl KeyError
      | Some v \<Rightarrow> if v = JStr ''European'' then Inr (strftime E d ''%d/%m/%Y'')
                 else Inr (strftime E d ''%m/%d/%Y''))"

definition get_date_automatically :: "'f env \<Rightarrow> 'f state \<Rightarrow> error + string" where
  "get_date_automatically E s = format_date E s (now E)"

definition is_leap :: "int \<Rightarrow> bool" where
  "is_leap y = (y mod 4 = 0 \<and> (y mod 100 \<noteq> 0 \<or> y mod 400 = 0))"

definition days_in_month :: "int \<Rightarrow> int \<Rightarrow> int" where
  "days_in_month y m =
     (if m = 2 then (if is_leap y then 29 else 28)
      else if m = 4 \<or> m = 6 \<or> m = 9 \<or> m = 11 then 30 else 31)"

definition check_date :: "int \<Rightarrow> int \<Rightarrow> int \<Rightarrow> date option" where
  "check_date year month day =
     (if 1 \<le> year \<and> year \<le> 9999 \<and> 1 \<le> month \<and> month \<le> 12
         \<and> 1 \<le> day \<and> day \<le> days_in_month year month
      then Some (year, month, day) else None)"

definition prompt_date :: "'f env \<Rightarrow> 'f state \<Rightarrow> error + ((int \<times> int \<times> int) \<times> 'f state)" where
  "prompt_date E s =
     then_do (inputInt E (Some 1) (Some 31) ASK_DAY s)
       (\<lambda>(day, s1). then_do (inputInt E (Some 1) (Some 12) ASK_MONTH s1)
          (\<lambda>(month, s2). then_do (inputInt E None None ASK_YEAR s2)
             (\<lambda>(year, s3). Inr ((day, month, year), s3))))"

definition confirm_date :: "'f env \<Rightarrow> string \<Rightarrow> 'f state \<Rightarrow> error + (string option \<times> 'f state)" where
  "confirm_date E date s =
     then_do (inputYesNo E ASK_CONFIRM_DATE s)
       (\<lambda>(yes, s1). if yes then Inr (Some date, s1) else Inr (None, s1))"

lemma prompt_date_stdin:
  "prompt_date E s = Inr (x, s') \<Longrightarrow> length (stdin s') < length (stdin s)"
  by (fastforce simp: prompt_date_def inputInt_def dest: ask_stdin)

lemma confirm_date_stdin:
  "confirm_date E d s = Inr (x, s') \<Longrightarrow> length (stdin s') < length (stdin s)"
  by (auto simp: confirm_date_def inputYesNo_def dest: ask_stdin split: if_splits)

function get_date_manually :: "'f env \<Rightarrow> 'f state \<Rightarrow> error + (string \<times> 'f state)" where
  "get_date_manually E s =
     (case prompt_date E s of
        Inl e \<Rightarrow> Inl e
      | Inr ((day, month, year), s1) \<Rightarrow>
          (case check_date year month day of
             None \<Rightarrow> get_date_manually E s1
           | Some date_obj \<Rightarrow>
               (case format_date E s1 date_obj of
                  Inl e \<Rightarrow> Inl e
                | Inr formatted \<Rightarrow>
                    (case confirm_date E formatted s1 of
                       Inl e \<Rightarrow> Inl e
                     | Inr (None, s2) \<Rightarrow> get_date_manually E s2
                     | Inr (Some date, s2) \<Rightarrow>
                         if date \<noteq> [] then Inr (date, s2) else get_date_manually E s2))))"
  by pat_completeness auto
termination
proof (relation "measure (\<lambda>(E, s). length (stdin s))")
  show "wf (measure (\<lambda>(E :: 'f env, s :: 'f state). length (stdin s)))" by simp
qed (auto dest!: prompt_date_stdin confirm_date_stdin)

declare get_date_manually.simps [simp del]

lemma inputYesNo_stdin:
  "inputYesNo E p s = Inr (a, s') \<Longrightarrow> length (stdin s') < length (stdin s)"
  unfolding inputYesNo_def by (rule ask_stdin)

lemma inputStr_stdin:
  "inputStr E p s = Inr (a, s') \<Longrightarrow> length (stdin s') < length (stdin s)"
  unfolding inputStr_def by (rule ask_stdin)

lemma inputInt_stdin:
  "inputInt E lo hi p s = Inr (a, s') \<Longrightarrow> length (stdin s') < length (stdin s)"
  unfolding inputInt_def by (rule ask_stdin)

subsection \<open>Recap of a column\<close>

fun recap_rows :: "int list \<Rightarrow> int \<Rightarrow> 'f state \<Rightarrow> error + 'f state" where
  "recap_rows [] col s = Inr s"
| "recap_rows (row # rows) col s =
     then_do (read_cell row 2 s)
       (\<lambda>(radiator_name, s1). then_do (read_cell row col s1)
          (\<lambda>(setting, s2). recap_rows rows col s2))"

definition recap_and_edit_column ::
  "'f env \<Rightarrow> string \<Rightarrow> int \<Rightarrow> ('f state \<Rightarrow> error + 'f state) \<Rightarrow> 'f state \<Rightarrow> error + 'f state" where
  "recap_and_edit_column E label col method s =
     then_do (get_usage_block_info s)
       (\<lambda>(radiators_owned, start_row).
          then_do (recap_rows (py_range start_row (start_row + radiators_owned)) col s)
            (\<lambda>s1. then_do (inputYesNo E (ASK_MODIFY label) s1)
               (\<lambda>(yes, s2). if yes then method s2 else Inr s2)))"

lemma recap_rows_stdin:
  "recap_rows rows col s = Inr s' \<Longrightarrow> stdin s' = stdin s"
  by (induction rows arbitrary: s) (auto dest!: read_cell_stdin)

lemma recap_and_edit_column_cong [fundef_cong]:
  assumes "s = s'"
    and "\<And>t. length (stdin t) < length (stdin s') \<Longrightarrow> method t = method' t"
  shows "recap_and_edit_column E label col method s = recap_and_edit_column E label col method' s'"
  unfolding recap_and_edit_column_def assms(1)
  apply (rule then_do_cong[OF refl])
  apply (clarsimp)
  apply (rule then_do_cong[OF refl])
  apply (rule then_do_cong[OF refl])
  apply (auto dest!: recap_rows_stdin inputYesNo_stdin intro!: assms(2))
  done

subsection \<open>Valve settings\<close>

definition get_initial_valve_setting :: "'f env \<Rightarrow> int \<Rightarrow> 'f state \<Rightarrow> error + ('f val \<times> 'f state)" where
  "get_initial_valve_setting E row s =
     then_do (read_cell row 2 s)
       (\<lambda>(radiator_name, s1). then_do (inputStr E ASK_VALVE_SETTING s1)
          (\<lambda>(entry, s2). Inr (StrV entry, s2)))"

lemma get_initial_valve_setting_stdin:
  "get_initial_valve_setting E row s = Inr (v, s') \<Longrightarrow> length (stdin s') \<le> length (stdin s)"
  by (auto simp: get_initial_valve_setting_def dest!: read_cell_stdin inputStr_stdin)

function enter_initial_valve_settings :: "'f env \<Rightarrow> 'f state \<Rightarrow> error + 'f state" where
  "enter_initial_valve_settings E s =
     then_do (display_user_info VALVE_SETTING_ENTRY s)
       (\<lambda>s1. then_do (get_usage_block_info s1)
          (\<lambda>(radiators_owned, start_row).
             then_do (fill_col (py_range start_row (start_row + radiators_owned))
                        (get_initial_valve_setting E) 8 s1)
               (\<lambda>s2. recap_and_edit_column E ''valve setting'' 8
                        (\<lambda>t. enter_initial_valve_settings E t) s2)))"
  by pat_completeness auto
termination
proof (relation "measure (\<lambda>(E, s). length (stdin s))")
  show "wf (measure (\<lambda>(E :: 'f env, s :: 'f state). length (stdin s)))" by simp
next
  fix E :: "'f env" and s x xb t :: "'f state" and x1 x2 :: int
  assume "display_user_info VALVE_SETTING_ENTRY s = Inr x"
    and "fill_col (py_range x2 (x2 + x1)) (get_initial_valve_setting E) 8 x = Inr xb"
    and "length (stdin t) < length (stdin xb)"
  moreover have "length (stdin xb) \<le> length (stdin x)"
    using calculation(2) get_initial_valve_setting_stdin by (rule fill_col_stdin[rotated])
  ultimately show "((E, t), (E, s)) \<in> measure (\<lambda>(E, s). length (stdin s))"
    by (auto dest!: display_user_info_stdin)
qed

declare enter_initial_valve_settings.simps [simp del]

text \<open>\<^verbatim>\<open>_add_valve_setting_note\<close>: a comment on the header cell of the valve column.\<close>

definition add_valve_setting_note :: "'f state \<Rightarrow> error + 'f state" where
  "add_valve_setting_note s =
     then_do (ws_cell (worksheet s) 1 8 NoneV)
       (\<lambda>ws. case map_of (cells ws) (1, 8) of
                Some MergedCell \<Rightarrow> Inl AttributeError
              | _ \<Rightarrow> Inr (s\<lparr>worksheet := ws\<lparr>comments :=
                      AList.update (1, 8) ''NOTE:\<newline>Numbers saved as text. Excel warning expected.''
                        (comments ws)\<rparr>\<rparr>))"

definition get_valve_info :: "int \<Rightarrow> 'f state \<Rightarrow> error + (('f val \<times> 'f val) \<times> 'f state)" where
  "get_valve_info old_row s =
     then_do (read_cell old_row 2 s)
       (\<lambda>(radiator_name, s1). then_do (read_cell old_row 8 s1)
          (\<lambda>(current_valve_setting, s2). Inr ((radiator_name, current_valve_setting), s2)))"

definition prompt_valve_update ::
  "'f env \<Rightarrow> 'f val \<Rightarrow> 'f val \<Rightarrow> 'f state \<Rightarrow> error + (string option \<times> 'f state)" where
  "prompt_valve_update E radiator_name current_valve_setting s =
     then_do (inputYesNo E ASK_VALVE_CHANGE s)
       (\<lambda>(yes, s1). if yes
          then then_do (inputStr E ASK_NEW_VALVE s1) (\<lambda>(entry, s2). Inr (Some entry, s2))
          else Inr (None, s1))"

definition confirm_valve_update ::
  "'f env \<Rightarrow> 'f val \<Rightarrow> string \<Rightarrow> int \<Rightarrow> 'f state \<Rightarrow> error + (bool \<times> 'f state)" where
  "confirm_valve_update E current_valve_setting new_valve_setting new_row s =
     then_do (inputYesNo E ASK_APPLY_CHANGE s)
       (\<lambda>(yes, s1). if yes
          then then_do (write_cell new_row 8 (StrV new_valve_setting) s1) (\<lambda>s2. Inr (True, s2))
          else Inr (False, s1))"

definition keep_existing_valve_setting :: "int \<Rightarrow> 'f val \<Rightarrow> 'f state \<Rightarrow> error + 'f state" where
  "keep_existing_valve_setting new_row current_valve_setting s =
     write_cell new_row 8 current_valve_setting s"

lemma prompt_valve_update_stdin:
  "prompt_valve_update E n c s = Inr (x, s') \<Longrightarrow> length (stdin s') < length (stdin s)"
  by (fastforce simp: prompt_valve_update_def split: if_splits
        dest: inputYesNo_stdin inputStr_stdin)

lemma confirm_valve_update_stdin:
  "confirm_valve_update E c n r s = Inr (x, s') \<Longrightarrow> length (stdin s') < length (stdin s)"
  by (fastforce simp: confirm_valve_update_def split: if_splits
        dest: inputYesNo_stdin write_cell_stdin)

text \<open>The \<^verbatim>\<open>while True\<close> loop of \<^verbatim>\<open>_process_valve_setting_update\<close>. A
  returned string is tested for truth: \<^verbatim>\<open>None\<close> and the empty string are false.\<close>

function valve_update_loop ::
  "'f env \<Rightarrow> 'f val \<Rightarrow> 'f val \<Rightarrow> int \<Rightarrow> 'f state \<Rightarrow> error + 'f state" where
  "valve_update_loop E radiator_name current_valve_setting new_row s =
     (case prompt_valve_update E radiator_name current_valve_setting s of
        Inl e \<Rightarrow> Inl e
      | Inr (new_valve_setting, s1) \<Rightarrow>
          (case new_valve_setting of
             None \<Rightarrow> keep_existing_valve_setting new_row current_valve_setting s1
           | Some entry \<Rightarrow>
               if entry \<noteq> []
               then (case confirm_valve_update E current_valve_setting entry new_row s1 of
                       Inl e \<Rightarrow> Inl e
                     | Inr (confirmed, s2) \<Rightarrow>
                         if confirmed then Inr s2
                         else valve_update_loop E radiator_name current_valve_setting new_row s2)
               else keep_existing_valve_setting new_row current_valve_setting s1))"
  by pat_completeness auto
termination
proof (relation "measure (\<lambda>(E, n, c, r, s). length (stdin s))")
  show "wf (measure (\<lambda>(E :: 'f env, n :: 'f val, c :: 'f val, r :: int, s :: 'f state).
              length (stdin s)))" by simp
qed (auto dest!: prompt_valve_update_stdin confirm_valve_update_stdin)

declare valve_update_loop.simps [simp del]

definition process_valve_setting_update :: "'f env \<Rightarrow> int \<Rightarrow> int \<Rightarrow> 'f state \<Rightarrow> error + 'f state" where
  "process_valve_setting_update E old_row new_row s =
     then_do (get_valve_info old_row s)
       (\<lambda>((radiator_name, current_valve_setting), s1).
          valve_update_loop E radiator_name current_valve_setting new_row s1)"

fun valve_updates :: "'f env \<Rightarrow> int list \<Rightarrow> int \<Rightarrow> int \<Rightarrow> 'f state \<Rightarrow> error + 'f state" where
  "valve_updates E [] last_start_row start_row s = Inr s"
| "valve_updates E (i # is) last_start_row start_row s =
     then_do (process_valve_setting_update E (last_start_row + i) (start_row + i) s)
       (\<lambda>s1. valve_updates E is last_start_row start_row s1)"

definition update_valve_setting :: "'f env \<Rightarrow> 'f state \<Rightarrow> error + 'f state" where
  "update_valve_setting E s =
     then_do (display_user_info VALVE_SETTING_UPDATE s)
       (\<lambda>s1. then_do (get_usage_block_info s1)
          (\<lambda>(radiators_owned, start_row).
             then_do (config_int (config_data s1) LAST_START_ROW)
               (\<lambda>last_start_row.
                  valve_updates E (py_range 0 radiators_owned) last_start_row start_row s1)))"

definition manage_valve_settings :: "'f env \<Rightarrow> 'f state \<Rightarrow> error + 'f state" where
  "manage_valve_settings E s =
     (if \<not> file_exists E
      then then_do (enter_initial_valve_settings E s) (\<lambda>s1. add_valve_setting_note s1)
      else update_valve_setting E s)"

subsection \<open>Dates column\<close>

definition fill_dates :: "'f env \<Rightarrow> 'f state \<Rightarrow> error + 'f state" where
  "fill_dates E s =
     then_do (case config_data s DATE_INPUT_MODE of
                None \<Rightarrow> Inl KeyError
              | Some mode \<Rightarrow>
                  if mode = JStr ''Auto''
                  then then_do (get_date_automatically E s) (\<lambda>date. Inr (date, s))
                  else get_date_manually E s)
       (\<lambda>(date, s1). then_do (get_usage_block_info s1)
          (\<lambda>(radiators_owned, start_row).
             fill_col (py_range start_row (radiators_owned + start_row + 1))
               (\<lambda>row t. Inr (StrV date, t)) 1 s1))"

subsection \<open>Raw readings, actual values, total\<close>

definition get_raw_reading :: "'f env \<Rightarrow> int \<Rightarrow> 'f state \<Rightarrow> error + ('f val \<times> 'f state)" where
  "get_raw_reading E row s =
     then_do (read_cell row 2 s)
       (\<lambda>(radiator_name, s1). then_do (inputInt E None None ASK_RAW_READING s1)
          (\<lambda>(entry, s2). Inr (IntV entry, s2)))"

lemma get_raw_reading_stdin:
  "get_raw_reading E row s = Inr (v, s') \<Longrightarrow> length (stdin s') \<le> length (stdin s)"
  by (auto simp: get_raw_reading_def dest!: read_cell_stdin inputInt_stdin)

function get_raw_readings :: "'f env \<Rightarrow> 'f state \<Rightarrow> error + 'f state" where
  "get_raw_readings E s =
     then_do (get_usage_block_info s)
       (\<lambda>(radiators_owned, start_row).
          then_do (fill_col (py_range start_row (start_row + radiators_owned))
                     (get_raw_reading E) 5 s)
            (\<lambda>s1. recap_and_edit_column E ''raw reading'' 5
                     (\<lambda>t. get_raw_readings E t) s1))"
  by pat_completeness auto
termination
proof (relation "measure (\<lambda>(E, s). length (stdin s))")
  show "wf (measure (\<lambda>(E :: 'f env, s :: 'f state). length (stdin s)))" by simp
next
  fix E :: "'f env" and s xb t :: "'f state" and x1 x2 :: int
  assume "fill_col (py_range x2 (x2 + x1)) (get_raw_reading E) 5 s = Inr xb"
    and "length (stdin t) < length (stdin xb)"
  moreover have "length (stdin xb) \<le> length (stdin s)"
    using calculation(1) get_raw_reading_stdin by (rule fill_col_stdin[rotated])
  ultimately show "((E, t), (E, s)) \<in> measure (\<lambda>(E, s). length (stdin s))"
    by auto
qed

declare get_raw_readings.simps [simp del]

definition compute_actual_value :: "'f env \<Rightarrow> int \<Rightarrow> 'f state \<Rightarrow> error + ('f val \<times> 'f state)" where
  "compute_actual_value E row s =
     then_do (read_cell row 4 s)
       (\<lambda>(coefficient, s1). then_do (read_cell row 5 s1)
          (\<lambda>(raw_reading, s2). then_do (py_mul E coefficient raw_reading)
             (\<lambda>v. Inr (v, s2))))"

definition get_actual_values :: "'f env \<Rightarrow> 'f state \<Rightarrow> error + 'f state" where
  "get_actual_values E s =
     then_do (get_usage_block_info s)
       (\<lambda>(radiators_owned, start_row).
          fill_col (py_range start_row (start_row + radiators_owned))
            (compute_actual_value E) 6 s)"

text \<open>\<^verbatim>\<open>sum(...)\<close> over the generator of the cells of column 6: it starts from the
  integer 0 and adds the items from left to right.\<close>

fun sum_rows :: "'f env \<Rightarrow> int list \<Rightarrow> 'f val \<Rightarrow> 'f state \<Rightarrow> error + ('f val \<times> 'f state)" where
  "sum_rows E [] acc s = Inr (acc, s)"
| "sum_rows E (row # rows) acc s =
     then_do (read_cell row 6 s)
       (\<lambda>(v, s1). then_do (py_add E acc v) (\<lambda>acc1. sum_rows E rows acc1 s1))"

definition get_total :: "'f env \<Rightarrow> 'f state \<Rightarrow> error + 'f state" where
  "get_total E s =
     then_do (get_usage_block_info s)
       (\<lambda>(radiators_owned, start_row).
          then_do (sum_rows E (py_range start_row (start_row + radiators_owned)) (IntV 0) s)
            (\<lambda>(total_value, s1). write_cell (start_row + radiators_owned) 7 total_value s1))"

subsection \<open>Notes and padding\<close>

text \<open>\<^verbatim>\<open>Worksheet.merge_cells\<close>: an empty range is refused; every cell of the range
  but the top-left one becomes a \<open>MergedCell\<close>.\<close>

definition ws_merge_cells :: "'f worksheet \<Rightarrow> int \<Rightarrow> int \<Rightarrow> int \<Rightarrow> int \<Rightarrow> error + 'f worksheet" where
  "ws_merge_cells ws start_row end_row start_column end_column =
     (if start_column > end_column \<or> start_row > end_row \<or> start_row < 1 \<or> start_column < 1
      then Inl ValueError
      else Inr (ws\<lparr>merged_cells :=
                     List.insert (start_row, end_row, start_column, end_column) (merged_cells ws),
                   cells :=
                     fold (\<lambda>k al. AList.update k MergedCell al)
                       (tl (List.product [start_row..end_row] [start_column..end_column]))
                       (cells ws)\<rparr>))"

definition merge_valve_cells :: "'f state \<Rightarrow> error + 'f state" where
  "merge_valve_cells s =
     then_do (get_usage_block_info s)
       (\<lambda>(radiators_owned, start_row).
          then_do (ws_merge_cells (worksheet s) start_row (start_row + radiators_owned - 1) 9 9)
            (\<lambda>ws. Inr (s\<lparr>worksheet := ws\<rparr>)))"

definition insert_note :: "string \<Rightarrow> 'f state \<Rightarrow> error + 'f state" where
  "insert_note note s =
     then_do (config_int (config_data s) START_ROW)
       (\<lambda>start_row. then_do (write_cell start_row 9 (StrV note) s)
          (\<lambda>s1. Inr (s1\<lparr>worksheet := (worksheet s1)\<lparr>alignments :=
                   AList.update (start_row, 9) (True, ''top'', ''left'')
                     (alignments (worksheet s1))\<rparr>\<rparr>)))"

definition get_notes :: "'f env \<Rightarrow> 'f state \<Rightarrow> error + 'f state" where
  "get_notes E s =
     then_do (inputYesNo E ASK_ADD_NOTE s)
       (\<lambda>(yes, s1).
          then_do (if yes then inputStr E ASK_NOTE s1 else Inr (''No additional notes.'', s1))
            (\<lambda>(note, s2). then_do (merge_valve_cells s2) (\<lambda>s3. insert_note note s3)))"

fun blank_lines :: "int list \<Rightarrow> 'f worksheet \<Rightarrow> error + 'f worksheet" where
  "blank_lines [] ws = Inr ws"
| "blank_lines (i # is) ws =
     then_do (ws_cell ws (max_row ws + 1) 1 (StrV [])) (\<lambda>ws1. blank_lines is ws1)"

definition add_blank_lines :: "'f state \<Rightarrow> error + 'f state" where
  "add_blank_lines s =
     then_do (blank_lines (py_range 0 3) (worksheet s)) (\<lambda>ws. Inr (s\<lparr>worksheet := ws\<rparr>))"

subsection \<open>One run\<close>

definition populate_usage :: "'f env \<Rightarrow> 'f state \<Rightarrow> error + 'f state" where
  "populate_usage E s =
     then_do (fill_registry_data E (update_start_rows s))
       (\<lambda>s1. then_do (display_data_entry_intro s1)
       (\<lambda>s2. then_do (fill_dates E s2)
       (\<lambda>s3. then_do (manage_valve_settings E s3)
       (\<lambda>s4. then_do (get_raw_readings E s4)
       (\<lambda>s5. then_do (get_actual_values E s5)
       (\<lambda>s6. then_do (get_total E s6)
       (\<lambda>s7. then_do (get_notes E s7)
       (\<lambda>s8. add_blank_lines s8))))))))"

definition new_workbook :: "'f worksheet" where
  "new_workbook = \<lparr>cells = [], merged_cells = [], comments = [], alignments = []\<rparr>"

definition HEADERS :: "string list" where
  "HEADERS = [''Date'', ''Radiator Name'', ''Radiator ID'', ''Coefficient'', ''Raw Reading'',
              ''Actual Value'', ''Total'', ''Valve Setting'', ''Notes'']"

fun append_cells :: "int \<Rightarrow> int \<Rightarrow> 'f val list \<Rightarrow> ((int \<times> int) \<times> 'f cell) list \<Rightarrow> ((int \<times> int) \<times> 'f cell) list" where
  "append_cells row_idx col_idx [] al = al"
| "append_cells row_idx col_idx (v # vs) al =
     append_cells row_idx (col_idx + 1) vs (AList.update (row_idx, col_idx) (Cell v) al)"

definition ws_append :: "'f worksheet \<Rightarrow> 'f val list \<Rightarrow> 'f worksheet" where
  "ws_append ws vs =
     ws\<lparr>cells := append_cells ((if cells ws = [] then 0 else max_row ws) + 1) 1 vs (cells ws)\<rparr>"

definition setup_workbook :: "'f env \<Rightarrow> 'f worksheet \<Rightarrow> 'f worksheet" where
  "setup_workbook E stored = (if \<not> file_exists E then new_workbook else stored)"

definition initialize_usage_sheet :: "'f env \<Rightarrow> 'f state \<Rightarrow> 'f state" where
  "initialize_usage_sheet E s =
     (if \<not> file_exists E then s\<lparr>worksheet := ws_append (worksheet s) (map StrV HEADERS)\<rparr> else s)"

definition manage_usage :: "'f env \<Rightarrow> 'f worksheet \<Rightarrow> 'f state \<Rightarrow> error + 'f state" where
  "manage_usage E stored s =
     populate_usage E (initialize_usage_sheet E (s\<lparr>worksheet := setup_workbook E stored\<rparr>))"

subsection \<open>The documented sample\<close>

text \<open>
  Three radiators, Kitchen (id 0, coefficient 1), Living Room (id 1, coefficient 2) and Gym
  (id 2, coefficient 3). In the samples the float type is \<open>int\<close>.
\<close>

definition sample_registry :: "int val list list" where
  "sample_registry =
     [[StrV ''Kitchen'', IntV 0, IntV 1],
      [StrV ''Living Room'', IntV 1, IntV 2],
      [StrV ''Gym'', IntV 2, IntV 3]]"

definition sample_int_of :: "string \<Rightarrow> int option" where
  "sample_int_of l =
     (if l = ''10'' then Some 10 else if l = ''7'' then Some 7
      else if l = ''15'' then Some 15 else None)"

definition sample_env :: "bool \<Rightarrow> int env" where
  "sample_env exists =
     \<lparr>file_exists = exists, registry_rows = sample_registry, now = (2025, 1, 15),
      strftime = (\<lambda>d f. if f = ''%d/%m/%Y'' then ''15/01/2025'' else ''01/15/2025''),
      yes_no_of = (\<lambda>l. if l = ''yes'' then Some True else if l = ''no'' then Some False else None),
      str_of = (\<lambda>l. if l = [] then None else Some l),
      int_of = sample_int_of,
      fmul = (\<lambda>a b. a * b), fadd = (\<lambda>a b. a + b), f_of_int = (\<lambda>n. Some n)\<rparr>"

definition sample_config :: config where
  "sample_config =
     [RADIATORS_OWNED \<mapsto> JInt 3, DATE_FORMAT \<mapsto> JStr ''European'',
      DATE_INPUT_MODE \<mapsto> JStr ''Auto'']"

definition sample_state :: "int worksheet \<Rightarrow> config \<Rightarrow> string list \<Rightarrow> int state" where
  "sample_state ws cfg lines =
     \<lparr>worksheet = ws, config_data = cfg, config_update = False, stdin = lines, prompts = []\<rparr>"


text \<open>The cell object seen at a coordinate; one that was never created is an empty cell.\<close>

definition cell_at :: "'f worksheet \<Rightarrow> int \<Rightarrow> int \<Rightarrow> 'f cell" where
  "cell_at ws row column =
     (case map_of (cells ws) (row, column) of None \<Rightarrow> Cell NoneV | Some c \<Rightarrow> c)"

text \<open>The rows that hold a cell object.\<close>

definition rows_of :: "'f worksheet \<Rightarrow> int set" where
  "rows_of ws = (\<lambda>kc. fst (fst kc)) ` set (cells ws)"

text \<open>The block of the sample after the raw readings 10, 7 and 15 were entered.\<close>

definition sample_block :: "int worksheet" where
  "sample_block =
     \<lparr>cells =
        [((1, 1), Cell (StrV ''Date'')),
         ((2, 2), Cell (StrV ''Kitchen'')), ((2, 3), Cell (IntV 0)), ((2, 4), Cell (IntV 1)),
         ((3, 2), Cell (StrV ''Living Room'')), ((3, 3), Cell (IntV 1)), ((3, 4), Cell (IntV 2)),
         ((4, 2), Cell (StrV ''Gym'')), ((4, 3), Cell (IntV 2)), ((4, 4), Cell (IntV 3)),
         ((2, 5), Cell (IntV 10)), ((3, 5), Cell (IntV 7)), ((4, 5), Cell (IntV 15))],
      merged_cells = [], comments = [], alignments = []\<rparr>"

definition sample_block_config :: config where
  "sample_block_config = sample_config(START_ROW \<mapsto> JInt 2, LAST_START_ROW \<mapsto> JInt 2)"

text \<open>Python's \<^verbatim>\<open>sum\<close> of a list of values, without the worksheet: the reference the
  total is compared with.\<close>

fun py_sum_from :: "'f env \<Rightarrow> 'f val \<Rightarrow> 'f val list \<Rightarrow> error + 'f val" where
  "py_sum_from E acc [] = Inr acc"
| "py_sum_from E acc (v # vs) = then_do (py_add E acc v) (\<lambda>acc1. py_sum_from E acc1 vs)"

definition py_sum :: "'f env \<Rightarrow> 'f val list \<Rightarrow> error + 'f val" where
  "py_sum E vs = py_sum_from E (IntV 0) vs"

text \<open>The block of the sample after the actual values 10, 14 and 45 were written.\<close>

definition sample_block_actual :: "int worksheet" where
  "sample_block_actual =
     sample_block\<lparr>cells := cells sample_block @
        [((2, 6), Cell (IntV 10)), ((3, 6), Cell (IntV 14)), ((4, 6), Cell (IntV 45))]\<rparr>"

subsection \<open>Reading a transcript of the valve dialogue\<close>

text \<open>
  In the transcript the question \<open>ASK_VALVE_CHANGE\<close> is the review step of a device
  (``do you want to change it?''), \<open>ASK_NEW_VALVE\<close> the entry of a new value and
  \<open>ASK_APPLY_CHANGE\<close> its confirmation. An answer is a rejection when the validator reads
  it as ``no''.
\<close>

definition rejected :: "'f env \<Rightarrow> prompt \<times> string \<Rightarrow> bool" where
  "rejected E x = (fst x = ASK_APPLY_CHANGE \<and> yes_no_of E (snd x) = Some False)"

text \<open>Every rejected confirmation is directly followed by the question \<open>q\<close>.\<close>

fun rejection_followed_by :: "'f env \<Rightarrow> prompt \<Rightarrow> (prompt \<times> string) list \<Rightarrow> bool" where
  "rejection_followed_by E q [] = True"
| "rejection_followed_by E q [x] = (\<not> rejected E x)"
| "rejection_followed_by E q (x # y # tr) =
     ((rejected E x \<longrightarrow> fst y = q) \<and> rejection_followed_by E q (y # tr))"

text \<open>The previous block of one radiator (row 2, total in row 3, blank rows 4 to 6) and the
  rows of a new block for two radiators, before the valve settings are reviewed.\<close>

definition sample_second_run :: "int worksheet" where
  "sample_second_run =
     \<lparr>cells =
        [((1, 1), Cell (StrV ''Date'')),
         ((2, 1), Cell (StrV ''15/01/2025'')), ((2, 2), Cell (StrV ''Kitchen'')),
         ((2, 3), Cell (IntV 0)), ((2, 4), Cell (IntV 1)), ((2, 5), Cell (IntV 10)),
         ((2, 6), Cell (IntV 10)), ((2, 8), Cell (StrV ''3'')),
         ((2, 9), Cell (StrV ''No additional notes.'')),
         ((3, 1), Cell (StrV ''15/01/2025'')), ((3, 7), Cell (IntV 10)),
         ((4, 1), Cell NoneV), ((5, 1), Cell NoneV), ((6, 1), Cell NoneV),
         ((7, 2), Cell (StrV ''Kitchen'')), ((7, 3), Cell (IntV 0)), ((7, 4), Cell (IntV 1)),
         ((8, 2), Cell (StrV ''Gym'')), ((8, 3), Cell (IntV 2)), ((8, 4), Cell (IntV 3)),
         ((7, 1), Cell (StrV ''16/01/2025'')), ((8, 1), Cell (StrV ''16/01/2025'')),
         ((9, 1), Cell (StrV ''16/01/2025''))],
      merged_cells = [(2, 2, 9, 9)], comments = [], alignments = []\<rparr>"

definition sample_second_config :: config where
  "sample_second_config =
     sample_config(RADIATORS_OWNED \<mapsto> JInt 2, START_ROW \<mapsto> JInt 7, LAST_START_ROW \<mapsto> JInt 2)"

text \<open>
  The two ways the dialogue of one radiator ends. \<open>kept\<close>: the value read from the old row
  went through \<^verbatim>\<open>_keep_existing_valve_setting\<close>, which stores it in the new row unless it
  is \<^verbatim>\<open>None\<close>. \<open>applied\<close>: a non-empty entry was confirmed and stored in the new row.
  In both, no other cell changes.
\<close>

definition kept :: "'f val \<Rightarrow> int \<Rightarrow> 'f worksheet \<Rightarrow> 'f worksheet \<Rightarrow> bool" where
  "kept cur new_row ws ws' =
     (\<forall>r c. cell_at ws' r c =
        (if r = new_row \<and> c = 8 \<and> cur \<noteq> NoneV then Cell cur else cell_at ws r c))"

definition applied :: "int \<Rightarrow> 'f worksheet \<Rightarrow> 'f worksheet \<Rightarrow> bool" where
  "applied new_row ws ws' =
     (\<exists>entry. entry \<noteq> [] \<and>
        (\<forall>r c. cell_at ws' r c =
           (if r = new_row \<and> c = 8 then Cell (StrV entry) else cell_at ws r c)))"


text \<open>The outcome for one row: the old value kept, or a new one applied.\<close>

definition row_outcome :: "bool \<Rightarrow> 'f val \<Rightarrow> 'f cell \<Rightarrow> 'f cell \<Rightarrow> bool" where
  "row_outcome declined old_value before after =
     (after = (if old_value = NoneV then before else Cell old_value)
      \<or> (\<not> declined \<and> (\<exists>entry. entry \<noteq> [] \<and> after = Cell (StrV entry))))"

text \<open>
  The footprint of a step on the worksheet: cells may change only in the rows \<open>W\<close>; cell
  objects, once created, stay; a new cell object appears only in a row of \<open>W\<close> or
  \<open>R\<close> (the rows that are written or read), which is at least 1; and merged ranges are
  only added.
\<close>

definition ws_effect :: "int set \<Rightarrow> int set \<Rightarrow> 'f worksheet \<Rightarrow> 'f worksheet \<Rightarrow> bool" where
  "ws_effect W R ws ws' =
     ((\<forall>r c. r \<notin> W \<longrightarrow> cell_at ws' r c = cell_at ws r c)
      \<and> rows_of ws \<subseteq> rows_of ws'
      \<and> rows_of ws' \<subseteq> rows_of ws \<union> {r \<in> W \<union> R. 1 \<le> r}
      \<and> set (merged_cells ws) \<subseteq> set (merged_cells ws'))"

definition effect :: "int set \<Rightarrow> int set \<Rightarrow> 'f state \<Rightarrow> 'f state \<Rightarrow> bool" where
  "effect W R s s' =
     (ws_effect W R (worksheet s) (worksheet s') \<and> config_data s' = config_data s
      \<and> config_update s' = config_update s)"

subsection \<open>From one run to the next\<close>

text \<open>
  What \<^verbatim>\<open>workbook.save\<close> followed by \<^verbatim>\<open>load_workbook\<close> keeps of a worksheet. The writer
  of the spreadsheet library skips a cell that has no value, no style and no comment; it
  writes an empty string as an empty cell element, which the reader loads as a cell object
  without value.
\<close>

definition save_load :: "'f worksheet \<Rightarrow> 'f worksheet" where
  "save_load ws =
     ws\<lparr>cells :=
          map (\<lambda>(k, c). (k, if c = Cell (StrV []) then Cell NoneV else c))
            (filter (\<lambda>(k, c). c \<noteq> Cell NoneV \<or> k \<in> set (map fst (comments ws))
                                \<or> k \<in> set (map fst (alignments ws)))
               (cells ws))\<rparr>"

text \<open>\<^verbatim>\<open>ConfigManager.open_config\<close>: the dictionary starts empty and takes the content of
  the JSON file; without a file it holds the default folder only.\<close>

definition open_config :: "string \<Rightarrow> config option \<Rightarrow> config" where
  "open_config default_excel_folder disk =
     (case disk of None \<Rightarrow> [EXCEL_FOLDER \<mapsto> JStr default_excel_folder] | Some cfg \<Rightarrow> cfg)"

text \<open>The first run of the sample: three valve settings, the readings 10, 7 and 15, no
  corrections and no note. \<open>sample_ledger\<close> is the worksheet it leaves on disk.\<close>

definition first_run_lines :: "string list" where
  "first_run_lines =
     [[], [], ''3'', ''2'', ''antifreeze'', ''no'', ''10'', ''7'', ''15'', ''no'', ''no'']"

definition second_run_lines :: "string list" where
  "second_run_lines =
     [[], [], ''yes'', ''4'', ''yes'', ''no'', ''no'', ''10'', ''7'', ''15'', ''no'', ''no'']"

definition sample_ledger :: "int worksheet" where
  "sample_ledger =
     \<lparr>cells =
        [((1, 1), Cell (StrV ''Date'')),
         ((1, 2), Cell (StrV ''Radiator Name'')),
         ((1, 3), Cell (StrV ''Radiator ID'')),
         ((1, 4), Cell (StrV ''Coefficient'')),
         ((1, 5), Cell (StrV ''Raw Reading'')),
         ((1, 6), Cell (StrV ''Actual Value'')),
         ((1, 7), Cell (StrV ''Total'')),
         ((1, 8), Cell (StrV ''Valve Setting'')),
         ((1, 9), Cell (StrV ''Notes'')), ((2, 2), Cell (StrV ''Kitchen'')),
         ((2, 3), Cell (IntV 0)), ((2, 4), Cell (IntV 1)),
         ((3, 2), Cell (StrV ''Living Room'')), ((3, 3), Cell (IntV 1)),
         ((3, 4), Cell (IntV 2)), ((4, 2), Cell (StrV ''Gym'')),
         ((4, 3), Cell (IntV 2)), ((4, 4), Cell (IntV 3)),
         ((2, 1), Cell (StrV ''15/01/2025'')),
         ((3, 1), Cell (StrV ''15/01/2025'')),
         ((4, 1), Cell (StrV ''15/01/2025'')),
         ((5, 1), Cell (StrV ''15/01/2025'')), ((2, 8), Cell (StrV ''3'')),
         ((3, 8), Cell (StrV ''2'')), ((4, 8), Cell (StrV ''antifreeze'')),
         ((2, 5), Cell (IntV 10)), ((3, 5), Cell (IntV 7)),
         ((4, 5), Cell (IntV 15)), ((2, 6), Cell (IntV 10)),
         ((3, 6), Cell (IntV 14)), ((4, 6), Cell (IntV 45)),
         ((5, 7), Cell (IntV 69)), ((3, 9), MergedCell),
         ((4, 9), MergedCell),
         ((2, 9), Cell (StrV ''No additional notes.'')),
         ((6, 1), Cell NoneV), ((7, 1), Cell NoneV), ((8, 1), Cell NoneV)],
      merged_cells = [(2, 4, 9, 9)],
      comments =
        [((1, 8), ''NOTE:\<newline>Numbers saved as text. Excel warning expected.'')],
      alignments = [((2, 9), True, ''top'', ''left'')]\<rparr>"

definition run_summary :: "'f state \<Rightarrow> 'f worksheet \<times> json option \<times> json option \<times> bool" where
  "run_summary s =
     (save_load (worksheet s), config_data s START_ROW, config_data s LAST_START_ROW,
      config_update s)"

definition succeeded :: "error + 'a \<Rightarrow> bool" where
  "succeeded r = (case r of Inl e \<Rightarrow> False | Inr x \<Rightarrow> True)"

text \<open>The two row keys at the end of a run.\<close>

definition start_rows :: "'f state \<Rightarrow> json option \<times> json option" where
  "start_rows s = (config_data s START_ROW, config_data s LAST_START_ROW)"

section \<open>Properties\<close>

lemma max_row_Max:
  "max_row ws = (if cells ws = [] then 1 else Max (set (map (\<lambda>kc. fst (fst kc)) (cells ws))))"
proof (cases "cells ws")
  case Nil
  then show ?thesis by (simp add: max_row_def)
next
  case (Cons kc rest)
  have "fold max (map (\<lambda>kc. fst (fst kc)) rest) (fst (fst kc))
        = Max (set (fst (fst kc) # map (\<lambda>kc. fst (fst kc)) rest))"
    by (simp only: Max.set_eq_fold)
  with Cons show ?thesis by (simp add: max_row_def)
qed

lemma max_row_new_ledger:
  "\<not> file_exists E \<Longrightarrow>
     max_row (worksheet (initialize_usage_sheet E (s\<lparr>worksheet := setup_workbook E stored\<rparr>))) = 1"
  by (simp add: initialize_usage_sheet_def setup_workbook_def new_workbook_def ws_append_def
      HEADERS_def max_row_def)

subsection \<open>The worksheet\<close>

lemma value_at_cell_at: "value_at ws r c = cell_value (cell_at ws r c)"
  by (simp add: value_at_def cell_at_def split: option.splits)

lemma cell_at_get_cell [simp]: "cell_at (get_cell ws r c) r' c' = cell_at ws r' c'"
  by (auto simp: get_cell_def cell_at_def map_add_def split: option.splits if_splits)

lemma get_cell_fields [simp]:
  "merged_cells (get_cell ws r c) = merged_cells ws"
  "comments (get_cell ws r c) = comments ws"
  "alignments (get_cell ws r c) = alignments ws"
  by (simp_all add: get_cell_def)

lemma ws_cell_cell_at:
  assumes "ws_cell ws r c v = Inr ws'"
  shows "cell_at ws' r' c' = (if r' = r \<and> c' = c \<and> v \<noteq> NoneV then Cell v else cell_at ws r' c')"
proof (cases "v = NoneV")
  case True
  with assms show ?thesis by (auto simp: ws_cell_def Let_def split: if_splits)
next
  case False
  with assms have ws': "ws' = (get_cell ws r c)\<lparr>cells := AList.update (r, c) (Cell v) (cells (get_cell ws r c))\<rparr>"
    by (auto simp: ws_cell_def Let_def split: if_splits option.splits cell.splits)
  have "cell_at ws' r' c' = (if (r', c') = (r, c) then Cell v else cell_at (get_cell ws r c) r' c')"
    unfolding ws' by (simp add: cell_at_def update_conv')
  with False show ?thesis by simp
qed

lemma ws_cell_value_at:
  "ws_cell ws r c v = Inr ws' \<Longrightarrow>
     value_at ws' r' c' = (if r' = r \<and> c' = c \<and> v \<noteq> NoneV then v else value_at ws r' c')"
  by (simp add: value_at_cell_at ws_cell_cell_at)

lemma ws_cell_fields:
  "ws_cell ws r c v = Inr ws' \<Longrightarrow>
     merged_cells ws' = merged_cells ws \<and> comments ws' = comments ws \<and> alignments ws' = alignments ws"
  by (auto simp: ws_cell_def Let_def split: if_splits option.splits cell.splits)

lemma ws_cell_Inr_iff:
  "(\<exists>ws'. ws_cell ws r c v = Inr ws') \<longleftrightarrow>
     1 \<le> r \<and> 1 \<le> c \<and> (v = NoneV \<or> cell_at ws r c \<noteq> MergedCell)"
proof -
  have "map_of (cells (get_cell ws r c)) (r, c) = Some (cell_at ws r c)"
    by (auto simp: get_cell_def cell_at_def map_add_def split: option.splits)
  then show ?thesis
    by (auto simp: ws_cell_def Let_def split: cell.splits)
qed

lemma ws_cell_rows_ge: "ws_cell ws r c v = Inr ws' \<Longrightarrow> 1 \<le> r \<and> 1 \<le> c"
  by (auto simp: ws_cell_def split: if_splits)


lemma max_row_rows_of:
  "max_row ws = (if rows_of ws = {} then 1 else Max (rows_of ws))"
  by (simp add: max_row_Max rows_of_def)

lemma map_of_rows_of: "map_of (cells ws) (r, c) = Some x \<Longrightarrow> r \<in> rows_of ws"
  unfolding rows_of_def by (drule map_of_SomeD) force

lemma rows_of_get_cell: "rows_of (get_cell ws r c) = insert r (rows_of ws)"
proof (cases "map_of (cells ws) (r, c)")
  case None
  then show ?thesis by (simp add: get_cell_def rows_of_def)
next
  case (Some x)
  then show ?thesis using map_of_rows_of[OF Some] by (auto simp: get_cell_def)
qed

lemma rows_of_update:
  "rows_of (ws\<lparr>cells := AList.update (r, c) x (cells ws)\<rparr>) = insert r (rows_of ws)"
proof -
  have "fst ` set (AList.update (r, c) x (cells ws)) = insert (r, c) (fst ` set (cells ws))"
    using dom_update[of "(r, c)" x "cells ws"] by (simp add: dom_map_of_conv_image_fst)
  then have "fst ` fst ` set (AList.update (r, c) x (cells ws)) = fst ` insert (r, c) (fst ` set (cells ws))"
    by (simp only: image_image[symmetric])
  then show ?thesis by (simp add: rows_of_def image_image)
qed

lemma ws_cell_rows_of: "ws_cell ws r c v = Inr ws' \<Longrightarrow> rows_of ws' = insert r (rows_of ws)"
  by (auto simp: ws_cell_def Let_def rows_of_update rows_of_get_cell
      split: if_splits option.splits cell.splits)

lemma finite_rows_of [simp]: "finite (rows_of ws)"
  by (simp add: rows_of_def)

lemma max_row_insert:
  "rows_of ws' = insert r (rows_of ws) \<Longrightarrow> 1 \<le> r \<Longrightarrow>
     max_row ws' = (if rows_of ws = {} then r else max r (max_row ws))"
  by (simp add: max_row_rows_of)

lemma ws_cell_max_row:
  "ws_cell ws r c v = Inr ws' \<Longrightarrow>
     max_row ws' = (if rows_of ws = {} then r else max r (max_row ws))"
  by (frule ws_cell_rows_of, drule ws_cell_rows_ge) (simp add: max_row_insert)

lemma ws_cell_max_row_fresh:
  "ws_cell ws (max_row ws + 1) c v = Inr ws' \<Longrightarrow> max_row ws' = max_row ws + 1"
  by (frule ws_cell_max_row, drule ws_cell_rows_ge) (auto simp: max_row_rows_of split: if_splits)

lemma ws_cell_max_row_same:
  "ws_cell ws r c v = Inr ws' \<Longrightarrow> r \<le> max_row ws \<Longrightarrow> rows_of ws \<noteq> {} \<Longrightarrow> max_row ws' = max_row ws"
  by (drule ws_cell_max_row) simp

lemma cell_at_above_max_row:
  "max_row ws < r \<Longrightarrow> cell_at ws r c = Cell NoneV"
proof -
  assume a: "max_row ws < r"
  have "map_of (cells ws) (r, c) = None"
  proof (rule ccontr)
    assume "map_of (cells ws) (r, c) \<noteq> None"
    then have "r \<in> rows_of ws" by (auto dest: map_of_rows_of)
    then have "r \<le> max_row ws" by (auto simp: max_row_rows_of)
    with a show False by simp
  qed
  then show ?thesis by (simp add: cell_at_def)
qed

subsection \<open>Cells read and written by the engine\<close>

lemma read_cell_spec:
  assumes "read_cell r c s = Inr (v, s')"
  shows "v = value_at (worksheet s) r c"
    and "cell_at (worksheet s') r' c' = cell_at (worksheet s) r' c'"
    and "config_data s' = config_data s" and "stdin s' = stdin s" and "prompts s' = prompts s"
    and "config_update s' = config_update s"
  using assms by (auto simp: read_cell_def ws_cell_cell_at ws_cell_value_at)

lemma write_cell_spec:
  assumes "write_cell r c v s = Inr s'"
  shows "cell_at (worksheet s') r' c' =
           (if r' = r \<and> c' = c \<and> v \<noteq> NoneV then Cell v else cell_at (worksheet s) r' c')"
    and "config_data s' = config_data s" and "stdin s' = stdin s" and "prompts s' = prompts s"
    and "config_update s' = config_update s"
  using assms by (auto simp: write_cell_def ws_cell_cell_at)

lemma get_usage_block_info_Inr:
  "get_usage_block_info s = Inr (n, start) \<longleftrightarrow>
     config_data s RADIATORS_OWNED = Some (JInt n) \<and> config_data s START_ROW = Some (JInt start)"
  by (auto simp: get_usage_block_info_def config_int_def split: option.splits json.splits)

lemma set_py_range [simp]: "set (py_range a b) = {a..<b}"
  by (auto simp: py_range_def)

lemma distinct_py_range [simp]: "distinct (py_range a b)"
  by (simp add: py_range_def)

subsection \<open>Actual values\<close>

lemma py_mul_not_None: "py_mul E a b = Inr v \<Longrightarrow> v \<noteq> NoneV"
  by (cases "(E, a, b)" rule: py_mul.cases) auto

lemma compute_actual_value_spec:
  assumes "compute_actual_value E row s = Inr (v, s')"
  shows "py_mul E (value_at (worksheet s) row 4) (value_at (worksheet s) row 5) = Inr v"
    and "cell_at (worksheet s') r c = cell_at (worksheet s) r c"
    and "config_data s' = config_data s"
proof -
  from assms obtain a s1 b where
    r1: "read_cell row 4 s = Inr (a, s1)" and r2: "read_cell row 5 s1 = Inr (b, s')"
    and m: "py_mul E a b = Inr v"
    by (auto simp: compute_actual_value_def)
  have a: "a = value_at (worksheet s) row 4" by (rule read_cell_spec(1)[OF r1])
  have "b = value_at (worksheet s1) row 5" by (rule read_cell_spec(1)[OF r2])
  then have b: "b = value_at (worksheet s) row 5"
    by (simp add: value_at_cell_at read_cell_spec(2)[OF r1])
  from m a b show "py_mul E (value_at (worksheet s) row 4) (value_at (worksheet s) row 5) = Inr v"
    by simp
  show "cell_at (worksheet s') r c = cell_at (worksheet s) r c"
    by (simp add: read_cell_spec(2)[OF r1] read_cell_spec(2)[OF r2])
  show "config_data s' = config_data s"
    by (simp add: read_cell_spec(3)[OF r1] read_cell_spec(3)[OF r2])
qed

lemma fill_col_actual_values:
  "fill_col rows (compute_actual_value E) 6 s = Inr s' \<Longrightarrow>
     (\<forall>r c. c \<noteq> 6 \<or> r \<notin> set rows \<longrightarrow> cell_at (worksheet s') r c = cell_at (worksheet s) r c)
     \<and> (\<forall>r\<in>set rows. \<exists>v. py_mul E (value_at (worksheet s) r 4) (value_at (worksheet s) r 5) = Inr v
            \<and> cell_at (worksheet s') r 6 = Cell v)
     \<and> config_data s' = config_data s"
proof (induction rows arbitrary: s)
  case Nil
  then show ?case by simp
next
  case (Cons row rows)
  from Cons.prems obtain v s1 s2 where
    g: "compute_actual_value E row s = Inr (v, s1)"
    and w: "write_cell row 6 v s1 = Inr s2"
    and f: "fill_col rows (compute_actual_value E) 6 s2 = Inr s'"
    by auto
  note g' = compute_actual_value_spec[OF g]
  have v: "v \<noteq> NoneV" using g'(1) by (rule py_mul_not_None)
  have s2: "cell_at (worksheet s2) r c = (if r = row \<and> c = 6 then Cell v else cell_at (worksheet s) r c)"
    for r c
    using write_cell_spec(1)[OF w, of r c] v by (simp add: g'(2))
  have val45: "value_at (worksheet s2) r 4 = value_at (worksheet s) r 4"
    "value_at (worksheet s2) r 5 = value_at (worksheet s) r 5" for r
    by (simp_all add: value_at_cell_at s2)
  note IH = Cons.IH[OF f]
  have frame: "\<forall>r c. c \<noteq> 6 \<or> r \<notin> set (row # rows) \<longrightarrow>
      cell_at (worksheet s') r c = cell_at (worksheet s) r c"
    using IH s2 by auto
  have written: "\<exists>v. py_mul E (value_at (worksheet s) r 4) (value_at (worksheet s) r 5) = Inr v
            \<and> cell_at (worksheet s') r 6 = Cell v" if "r \<in> set (row # rows)" for r
  proof (cases "r \<in> set rows")
    case True
    with IH show ?thesis by (simp add: val45)
  next
    case False
    with that have "r = row" by simp
    moreover from False IH have "cell_at (worksheet s') r 6 = cell_at (worksheet s2) r 6" by simp
    ultimately show ?thesis using g'(1) s2 by simp
  qed
  have "config_data s' = config_data s"
    using IH write_cell_spec(2)[OF w] g'(3) by simp
  with frame written show ?case by blast
qed

subsection \<open>Total\<close>

lemma py_add_not_None: "py_add E a b = Inr v \<Longrightarrow> v \<noteq> NoneV"
  by (cases "(E, a, b)" rule: py_add.cases) auto

lemma py_sum_from_not_None: "py_sum_from E acc vs = Inr t \<Longrightarrow> acc \<noteq> NoneV \<Longrightarrow> t \<noteq> NoneV"
  by (induction vs arbitrary: acc) (auto dest: py_add_not_None)

lemma py_sum_from_ints: "py_sum_from E (IntV a) (map IntV xs) = Inr (IntV (a + sum_list xs))"
  by (induction xs arbitrary: a) (simp_all add: add.assoc)

lemma sum_rows_spec:
  "sum_rows E rows acc s = Inr (t, s') \<Longrightarrow>
     py_sum_from E acc (map (\<lambda>r. value_at (worksheet s) r 6) rows) = Inr t
     \<and> (\<forall>r c. cell_at (worksheet s') r c = cell_at (worksheet s) r c)
     \<and> config_data s' = config_data s"
proof (induction rows arbitrary: acc s)
  case Nil
  then show ?case by simp
next
  case (Cons row rows)
  from Cons.prems obtain v s1 acc1 where
    r: "read_cell row 6 s = Inr (v, s1)" and a: "py_add E acc v = Inr acc1"
    and f: "sum_rows E rows acc1 s1 = Inr (t, s')"
    by auto
  note r' = read_cell_spec[OF r]
  have same: "value_at (worksheet s1) x 6 = value_at (worksheet s) x 6" for x
    by (simp add: value_at_cell_at r'(2))
  from Cons.IH[OF f] a show ?case
    by (simp add: same r'(1)[symmetric] r'(2) r'(3))
qed

subsection \<open>Prompts leave the worksheet and the dictionary alone\<close>

lemma ask_spec:
  assumes "ask f p s = Inr (a, s')"
  shows "worksheet s' = worksheet s" and "config_data s' = config_data s"
    and "config_update s' = config_update s"
    and "\<exists>l rest. read_valid f (stdin s) = Some (a, l, rest) \<and> stdin s' = rest
           \<and> prompts s' = prompts s @ [(p, l)]"
  using assms by (auto simp: ask_def split: option.splits)

lemma inputYesNo_spec:
  assumes "inputYesNo E p s = Inr (a, s')"
  shows "worksheet s' = worksheet s" and "config_data s' = config_data s"
    and "config_update s' = config_update s"
    and "\<exists>l rest. read_valid (yes_no_of E) (stdin s) = Some (a, l, rest) \<and> stdin s' = rest
           \<and> prompts s' = prompts s @ [(p, l)]"
  using assms unfolding inputYesNo_def by (rule ask_spec)+

lemma inputStr_spec:
  assumes "inputStr E p s = Inr (a, s')"
  shows "worksheet s' = worksheet s" and "config_data s' = config_data s"
    and "config_update s' = config_update s"
    and "\<exists>l rest. read_valid (str_of E) (stdin s) = Some (a, l, rest) \<and> stdin s' = rest
           \<and> prompts s' = prompts s @ [(p, l)]"
  using assms unfolding inputStr_def by (rule ask_spec)+

lemma inputInt_spec:
  assumes "inputInt E lo hi p s = Inr (a, s')"
  shows "worksheet s' = worksheet s" and "config_data s' = config_data s"
    and "config_update s' = config_update s"
    and "\<exists>l. prompts s' = prompts s @ [(p, l)]"
  using assms unfolding inputInt_def by (auto dest: ask_spec)

lemma display_user_info_spec:
  assumes "display_user_info p s = Inr s'"
  shows "worksheet s' = worksheet s" and "config_data s' = config_data s"
    and "config_update s' = config_update s"
    and "\<exists>l. prompts s' = prompts s @ [(p, l)]"
  using assms by (auto simp: display_user_info_def split: list.splits)

subsection \<open>Dates\<close>

lemma prompt_date_spec:
  assumes "prompt_date E s = Inr (x, s')"
  shows "worksheet s' = worksheet s" and "config_data s' = config_data s"
    and "config_update s' = config_update s"
proof -
  from assms obtain d s1 m s2 y where
    a: "inputInt E (Some 1) (Some 31) ASK_DAY s = Inr (d, s1)"
    and b: "inputInt E (Some 1) (Some 12) ASK_MONTH s1 = Inr (m, s2)"
    and c: "inputInt E None None ASK_YEAR s2 = Inr (y, s')"
    by (auto simp: prompt_date_def)
  show "worksheet s' = worksheet s"
    by (simp add: inputInt_spec(1)[OF a] inputInt_spec(1)[OF b] inputInt_spec(1)[OF c])
  show "config_data s' = config_data s"
    by (simp add: inputInt_spec(2)[OF a] inputInt_spec(2)[OF b] inputInt_spec(2)[OF c])
  show "config_update s' = config_update s"
    by (simp add: inputInt_spec(3)[OF a] inputInt_spec(3)[OF b] inputInt_spec(3)[OF c])
qed

lemma confirm_date_spec:
  assumes "confirm_date E d s = Inr (x, s')"
  shows "worksheet s' = worksheet s" and "config_data s' = config_data s"
    and "config_update s' = config_update s"
proof -
  from assms obtain yes where a: "inputYesNo E ASK_CONFIRM_DATE s = Inr (yes, s')"
    by (auto simp: confirm_date_def split: if_splits)
  show "worksheet s' = worksheet s" by (rule inputYesNo_spec(1)[OF a])
  show "config_data s' = config_data s" by (rule inputYesNo_spec(2)[OF a])
  show "config_update s' = config_update s" by (rule inputYesNo_spec(3)[OF a])
qed

lemma get_date_manually_spec:
  "get_date_manually E s = Inr (d, s') \<Longrightarrow>
     worksheet s' = worksheet s \<and> config_data s' = config_data s
     \<and> config_update s' = config_update s"
proof (induction E s rule: get_date_manually.induct)
  case (1 E s)
  from "1.prems" obtain day month year s1 where
    p: "prompt_date E s = Inr ((day, month, year), s1)"
    by (subst (asm) get_date_manually.simps) (auto split: sum.splits)
  note p' = prompt_date_spec[OF p]
  show ?case
  proof (cases "check_date year month day")
    case None
    with "1.prems" p have "get_date_manually E s1 = Inr (d, s')"
      by (subst (asm) get_date_manually.simps) simp
    from "1.IH"(1)[OF p refl refl refl None this] p' show ?thesis by simp
  next
    case (Some date_obj)
    with "1.prems" p obtain formatted r s2 where
      f: "format_date E s1 date_obj = Inr formatted"
      and c: "confirm_date E formatted s1 = Inr (r, s2)"
      by (subst (asm) get_date_manually.simps) (auto split: sum.splits)
    note c' = confirm_date_spec[OF c]
    show ?thesis
    proof (cases "\<exists>date. r = Some date \<and> date \<noteq> []")
      case True
      with "1.prems" p Some f c have "s' = s2"
        by (subst (asm) get_date_manually.simps) auto
      with p' c' show ?thesis by simp
    next
      case False
      show ?thesis
      proof (cases r)
        case None
        with "1.prems" p Some f c have "get_date_manually E s2 = Inr (d, s')"
          by (subst (asm) get_date_manually.simps) simp
        from "1.IH"(2)[OF p refl refl refl Some f c refl None this] p' c' show ?thesis by simp
      next
        case (Some date)
        with False have e: "date = []" by simp
        with "1.prems" p \<open>check_date year month day = Some date_obj\<close> f c Some
        have "get_date_manually E s2 = Inr (d, s')"
          by (subst (asm) get_date_manually.simps) simp
        from "1.IH"(3)[OF p refl refl refl \<open>check_date year month day = Some date_obj\<close> f c refl Some _ this]
          e p' c' show ?thesis by simp
      qed
    qed
  qed
qed


subsection \<open>Merged ranges and notes\<close>

lemma map_of_fold_update:
  "map_of (fold (\<lambda>k al. AList.update k x al) ks al) k =
     (if k \<in> set ks then Some x else map_of al k)"
  by (induction ks arbitrary: al) (auto simp: update_conv')

lemma cell_at_fold_update:
  "cell_at (ws\<lparr>cells := fold (\<lambda>k al. AList.update k MergedCell al) ks (cells ws)\<rparr>) r c =
     (if (r, c) \<in> set ks then MergedCell else cell_at ws r c)"
  by (simp add: cell_at_def map_of_fold_update)

lemma rows_of_fold_update:
  "rows_of (ws\<lparr>cells := fold (\<lambda>k al. AList.update k x al) ks (cells ws)\<rparr>) =
     rows_of ws \<union> fst ` set ks"
proof (induction ks arbitrary: ws)
  case Nil
  then show ?case by (simp add: rows_of_def)
next
  case (Cons k ks)
  obtain r c where k: "k = (r, c)" by (cases k)
  have "rows_of (ws\<lparr>cells := fold (\<lambda>k al. AList.update k x al) (k # ks) (cells ws)\<rparr>) =
        rows_of ((ws\<lparr>cells := AList.update k x (cells ws)\<rparr>)
          \<lparr>cells := fold (\<lambda>k al. AList.update k x al) ks
             (cells (ws\<lparr>cells := AList.update k x (cells ws)\<rparr>))\<rparr>)"
    by simp
  also have "\<dots> = rows_of (ws\<lparr>cells := AList.update k x (cells ws)\<rparr>) \<union> fst ` set ks"
    by (rule Cons.IH)
  finally show ?case by (auto simp: k rows_of_update)
qed

lemma tl_product_column:
  "a \<le> b \<Longrightarrow> set (tl (List.product [a..b] [c..c])) = {(r, c') |r c'. a < r \<and> r \<le> b \<and> c' = c}"
  by (subst upto_rec1) (auto simp: upto_rec1[of c c])

lemma ws_merge_cells_column:
  assumes "ws_merge_cells ws a b c c = Inr ws'"
  shows "a \<le> b" and "1 \<le> a"
    and "merged_cells ws' = List.insert (a, b, c, c) (merged_cells ws)"
    and "cell_at ws' r c' = (if c' = c \<and> a < r \<and> r \<le> b then MergedCell else cell_at ws r c')"
    and "rows_of ws' = rows_of ws \<union> {r. a < r \<and> r \<le> b}"
    and "comments ws' = comments ws" and "alignments ws' = alignments ws"
proof -
  from assms show ab: "a \<le> b" and "1 \<le> a"
    by (auto simp: ws_merge_cells_def split: if_splits)
  from assms have ws': "ws' = ws\<lparr>merged_cells := List.insert (a, b, c, c) (merged_cells ws),
      cells := fold (\<lambda>k al. AList.update k MergedCell al) (tl (List.product [a..b] [c..c])) (cells ws)\<rparr>"
    by (auto simp: ws_merge_cells_def split: if_splits)
  show "merged_cells ws' = List.insert (a, b, c, c) (merged_cells ws)"
    and "comments ws' = comments ws" and "alignments ws' = alignments ws"
    by (simp_all add: ws')
  have eq: "cell_at ws' = cell_at (ws\<lparr>cells := fold (\<lambda>k al. AList.update k MergedCell al)
       (tl (List.product [a..b] [c..c])) (cells ws)\<rparr>)"
    by (simp add: ws' cell_at_def fun_eq_iff)
  show "cell_at ws' r c' = (if c' = c \<and> a < r \<and> r \<le> b then MergedCell else cell_at ws r c')"
    unfolding eq cell_at_fold_update tl_product_column[OF ab] by auto
  have "rows_of ws' = rows_of (ws\<lparr>cells := fold (\<lambda>k al. AList.update k MergedCell al)
       (tl (List.product [a..b] [c..c])) (cells ws)\<rparr>)"
    by (simp add: ws' rows_of_def)
  then show "rows_of ws' = rows_of ws \<union> {r. a < r \<and> r \<le> b}"
    unfolding rows_of_fold_update tl_product_column[OF ab] by force
qed

lemma merge_valve_cells_spec:
  assumes "merge_valve_cells s = Inr s'"
    and "config_data s RADIATORS_OWNED = Some (JInt n)"
    and "config_data s START_ROW = Some (JInt start)"
  shows "ws_merge_cells (worksheet s) start (start + n - 1) 9 9 = Inr (worksheet s')"
    and "config_data s' = config_data s" and "stdin s' = stdin s" and "prompts s' = prompts s"
    and "config_update s' = config_update s"
proof -
  from assms(2,3) have "get_usage_block_info s = Inr (n, start)"
    by (simp add: get_usage_block_info_Inr)
  with assms(1) show "ws_merge_cells (worksheet s) start (start + n - 1) 9 9 = Inr (worksheet s')"
    and "config_data s' = config_data s" and "stdin s' = stdin s" and "prompts s' = prompts s"
    and "config_update s' = config_update s"
    by (auto simp: merge_valve_cells_def)
qed

lemma insert_note_spec:
  assumes "insert_note note s = Inr s'"
    and "config_data s START_ROW = Some (JInt start)"
  shows "cell_at (worksheet s') r c =
           (if r = start \<and> c = 9 then Cell (StrV note) else cell_at (worksheet s) r c)"
    and "merged_cells (worksheet s') = merged_cells (worksheet s)"
    and "comments (worksheet s') = comments (worksheet s)"
    and "map_of (alignments (worksheet s')) (start, 9) = Some (True, ''top'', ''left'')"
    and "rows_of (worksheet s') = insert start (rows_of (worksheet s))"
    and "config_data s' = config_data s" and "stdin s' = stdin s" and "prompts s' = prompts s"
    and "config_update s' = config_update s"
proof -
  from assms obtain s1 where w: "write_cell start 9 (StrV note) s = Inr s1"
    and s': "s' = s1\<lparr>worksheet := (worksheet s1)\<lparr>alignments :=
                   AList.update (start, 9) (True, ''top'', ''left'')
                     (alignments (worksheet s1))\<rparr>\<rparr>"
    by (auto simp: insert_note_def config_int_def)
  from w obtain ws1 where c: "ws_cell (worksheet s) start 9 (StrV note) = Inr ws1"
    and s1: "s1 = s\<lparr>worksheet := ws1\<rparr>"
    by (auto simp: write_cell_def)
  have "cell_at (worksheet s') r c = cell_at ws1 r c"
    by (simp add: s' s1 cell_at_def)
  then show "cell_at (worksheet s') r c =
           (if r = start \<and> c = 9 then Cell (StrV note) else cell_at (worksheet s) r c)"
    by (simp add: ws_cell_cell_at[OF c])
  show "merged_cells (worksheet s') = merged_cells (worksheet s)"
    and "comments (worksheet s') = comments (worksheet s)"
    using ws_cell_fields[OF c] by (simp_all add: s' s1)
  show "map_of (alignments (worksheet s')) (start, 9) = Some (True, ''top'', ''left'')"
    by (simp add: s' update_conv')
  have "rows_of (worksheet s') = rows_of ws1" by (simp add: s' s1 rows_of_def)
  then show "rows_of (worksheet s') = insert start (rows_of (worksheet s))"
    by (simp add: ws_cell_rows_of[OF c])
  show "config_data s' = config_data s" and "stdin s' = stdin s" and "prompts s' = prompts s"
    and "config_update s' = config_update s"
    by (simp_all add: s' s1)
qed

subsection \<open>The valve dialogue of one radiator\<close>

lemma read_valid_accepts: "read_valid f ls = Some (a, l, rest) \<Longrightarrow> f l = Some a"
  by (induction ls) (auto split: option.splits)

lemma inputYesNo_answer:
  assumes "inputYesNo E p s = Inr (a, s')"
  shows "\<exists>l. prompts s' = prompts s @ [(p, l)] \<and> yes_no_of E l = Some a"
  using inputYesNo_spec(4)[OF assms] by (auto dest: read_valid_accepts)

lemma inputStr_answer:
  assumes "inputStr E p s = Inr (a, s')"
  shows "\<exists>l. prompts s' = prompts s @ [(p, l)] \<and> str_of E l = Some a"
  using inputStr_spec(4)[OF assms] by (auto dest: read_valid_accepts)

lemma get_valve_info_spec:
  assumes "get_valve_info old_row s = Inr ((name, cur), s')"
  shows "cur = value_at (worksheet s) old_row 8"
    and "cell_at (worksheet s') r c = cell_at (worksheet s) r c"
    and "config_data s' = config_data s" and "prompts s' = prompts s" and "stdin s' = stdin s"
proof -
  from assms obtain s1 where
    r1: "read_cell old_row 2 s = Inr (name, s1)" and r2: "read_cell old_row 8 s1 = Inr (cur, s')"
    by (auto simp: get_valve_info_def)
  have "cur = value_at (worksheet s1) old_row 8" by (rule read_cell_spec(1)[OF r2])
  then show "cur = value_at (worksheet s) old_row 8"
    by (simp add: value_at_cell_at read_cell_spec(2)[OF r1])
  show "cell_at (worksheet s') r c = cell_at (worksheet s) r c"
    by (simp add: read_cell_spec(2)[OF r1] read_cell_spec(2)[OF r2])
  show "config_data s' = config_data s" "prompts s' = prompts s" "stdin s' = stdin s"
    by (simp_all add: read_cell_spec(3-5)[OF r1] read_cell_spec(3-5)[OF r2])
qed

text \<open>The three ways \<^verbatim>\<open>_prompt_valve_update\<close> returns.\<close>

lemma prompt_valve_update_cases:
  assumes "prompt_valve_update E name cur s = Inr (x, s')"
  obtains (declined) l where "x = None" "yes_no_of E l = Some False"
      "prompts s' = prompts s @ [(ASK_VALVE_CHANGE, l)]"
    | (entered) l l' entry where "x = Some entry" "yes_no_of E l = Some True"
      "str_of E l' = Some entry"
      "prompts s' = prompts s @ [(ASK_VALVE_CHANGE, l), (ASK_NEW_VALVE, l')]"
proof -
  from assms obtain yes s1 where y: "inputYesNo E ASK_VALVE_CHANGE s = Inr (yes, s1)"
    by (auto simp: prompt_valve_update_def)
  from inputYesNo_answer[OF y] obtain l where
    l: "prompts s1 = prompts s @ [(ASK_VALVE_CHANGE, l)]" "yes_no_of E l = Some yes" by blast
  show thesis
  proof (cases yes)
    case False
    with assms y have "x = None" "s' = s1" by (auto simp: prompt_valve_update_def)
    with l False show thesis by (auto intro: declined)
  next
    case True
    with assms y obtain entry where e: "inputStr E ASK_NEW_VALVE s1 = Inr (entry, s')"
      and x: "x = Some entry"
      by (auto simp: prompt_valve_update_def)
    from inputStr_answer[OF e] obtain l' where
      "prompts s' = prompts s1 @ [(ASK_NEW_VALVE, l')]" "str_of E l' = Some entry" by blast
    with l True x show thesis by (auto intro: entered)
  qed
qed

lemma prompt_valve_update_frame:
  assumes "prompt_valve_update E name cur s = Inr (x, s')"
  shows "worksheet s' = worksheet s" and "config_data s' = config_data s"
    and "config_update s' = config_update s"
proof -
  from assms obtain yes s1 where y: "inputYesNo E ASK_VALVE_CHANGE s = Inr (yes, s1)"
    by (auto simp: prompt_valve_update_def)
  from assms y show "worksheet s' = worksheet s" and "config_data s' = config_data s"
    and "config_update s' = config_update s"
    using inputYesNo_spec(1-3)[OF y]
    by (auto simp: prompt_valve_update_def split: if_splits dest: inputStr_spec(1-3))
qed

text \<open>The two ways \<^verbatim>\<open>_confirm_valve_update\<close> returns.\<close>

lemma confirm_valve_update_cases:
  assumes "confirm_valve_update E cur entry new_row s = Inr (ok, s')"
  obtains (applied) l where "ok" "yes_no_of E l = Some True"
      "prompts s' = prompts s @ [(ASK_APPLY_CHANGE, l)]"
      "\<And>r c. cell_at (worksheet s') r c =
          (if r = new_row \<and> c = 8 then Cell (StrV entry) else cell_at (worksheet s) r c)"
      "config_data s' = config_data s"
    | (refused) l where "\<not> ok" "yes_no_of E l = Some False"
      "prompts s' = prompts s @ [(ASK_APPLY_CHANGE, l)]"
      "worksheet s' = worksheet s" "config_data s' = config_data s"
proof -
  from assms obtain yes s1 where y: "inputYesNo E ASK_APPLY_CHANGE s = Inr (yes, s1)"
    by (auto simp: confirm_valve_update_def)
  from inputYesNo_answer[OF y] obtain l where
    l: "prompts s1 = prompts s @ [(ASK_APPLY_CHANGE, l)]" "yes_no_of E l = Some yes" by blast
  note y' = inputYesNo_spec(1,2)[OF y]
  show thesis
  proof (cases yes)
    case False
    with assms y have "\<not> ok" "s' = s1" by (auto simp: confirm_valve_update_def)
    with l False y' show thesis by (auto intro: refused)
  next
    case True
    with assms y have ok and w: "write_cell new_row 8 (StrV entry) s1 = Inr s'"
      by (auto simp: confirm_valve_update_def)
    have "cell_at (worksheet s') r c =
          (if r = new_row \<and> c = 8 then Cell (StrV entry) else cell_at (worksheet s) r c)" for r c
      using write_cell_spec(1)[OF w, of r c] y' by simp
    moreover have "prompts s' = prompts s @ [(ASK_APPLY_CHANGE, l)]"
      using write_cell_spec(4)[OF w] l by simp
    moreover have "config_data s' = config_data s"
      using write_cell_spec(2)[OF w] y' by simp
    ultimately show thesis using \<open>ok\<close> l True by (auto intro: applied)
  qed
qed

lemma keep_existing_valve_setting_spec:
  assumes "keep_existing_valve_setting new_row cur s = Inr s'"
  shows "cell_at (worksheet s') r c =
           (if r = new_row \<and> c = 8 \<and> cur \<noteq> NoneV then Cell cur else cell_at (worksheet s) r c)"
    and "config_data s' = config_data s" and "prompts s' = prompts s"
  using assms unfolding keep_existing_valve_setting_def
  by (simp_all add: write_cell_spec)

lemma rejected_simps [simp]:
  "rejected E (ASK_VALVE_CHANGE, l) = False"
  "rejected E (ASK_NEW_VALVE, l) = False"
  "rejected E (ASK_APPLY_CHANGE, l) = (yes_no_of E l = Some False)"
  by (simp_all add: rejected_def)

lemma valve_update_loop_spec:
  "valve_update_loop E name cur new_row s = Inr s' \<Longrightarrow>
     config_data s' = config_data s
     \<and> (kept cur new_row (worksheet s) (worksheet s') \<or> applied new_row (worksheet s) (worksheet s'))
     \<and> (\<exists>x tr. prompts s' = prompts s @ x # tr \<and> fst x = ASK_VALVE_CHANGE
           \<and> rejection_followed_by E ASK_VALVE_CHANGE (x # tr))"
proof (induction E name cur new_row s rule: valve_update_loop.induct)
  case (1 E name cur new_row s)
  from "1.prems" obtain nv s1 where
    p: "prompt_valve_update E name cur s = Inr (nv, s1)"
    by (subst (asm) valve_update_loop.simps) (auto split: sum.splits)
  note f = prompt_valve_update_frame[OF p]
  have keep: ?case
    if k: "keep_existing_valve_setting new_row cur s1 = Inr s'"
      and tr: "prompts s1 = prompts s @ x # tr" "fst x = ASK_VALVE_CHANGE"
        "rejection_followed_by E ASK_VALVE_CHANGE (x # tr)" for x tr
  proof -
    note k' = keep_existing_valve_setting_spec[OF k]
    have "kept cur new_row (worksheet s) (worksheet s')"
      unfolding kept_def using k'(1) f by simp
    moreover have "config_data s' = config_data s" using k'(2) f by simp
    moreover have "prompts s' = prompts s @ x # tr" using k'(3) tr by simp
    ultimately show ?thesis using tr by blast
  qed
  from p show ?case
  proof (cases rule: prompt_valve_update_cases)
    case (declined l)
    with "1.prems" p have "keep_existing_valve_setting new_row cur s1 = Inr s'"
      by (subst (asm) valve_update_loop.simps) simp
    then show ?thesis
      by (rule keep[where x = "(ASK_VALVE_CHANGE, l)" and tr = "[]"]) (simp_all add: declined)
  next
    case (entered l l' entry)
    show ?thesis
    proof (cases "entry = []")
      case True
      with "1.prems" p entered have "keep_existing_valve_setting new_row cur s1 = Inr s'"
        by (subst (asm) valve_update_loop.simps) simp
      then show ?thesis
        by (rule keep[where x = "(ASK_VALVE_CHANGE, l)" and tr = "[(ASK_NEW_VALVE, l')]"])
          (simp_all add: entered)
    next
      case False
      with "1.prems" p entered obtain ok s2 where
        c: "confirm_valve_update E cur entry new_row s1 = Inr (ok, s2)"
        by (subst (asm) valve_update_loop.simps) (auto split: sum.splits)
      from c show ?thesis
      proof (cases rule: confirm_valve_update_cases)
        case (applied l'')
        with "1.prems" p entered False c have s': "s' = s2"
          by (subst (asm) valve_update_loop.simps) simp
        have "applied new_row (worksheet s) (worksheet s')"
          unfolding applied_def s' using applied(4) f False by auto
        moreover have "config_data s' = config_data s" using applied(5) f s' by simp
        moreover have "prompts s' = prompts s @ (ASK_VALVE_CHANGE, l) #
            [(ASK_NEW_VALVE, l'), (ASK_APPLY_CHANGE, l'')]"
          using applied(3) entered(4) s' by simp
        moreover have "rejection_followed_by E ASK_VALVE_CHANGE
            ((ASK_VALVE_CHANGE, l) # [(ASK_NEW_VALVE, l'), (ASK_APPLY_CHANGE, l'')])"
          using applied(2) by simp
        ultimately show ?thesis by (metis fst_conv)
      next
        case (refused l'')
        with "1.prems" p entered False c
        have loop: "valve_update_loop E name cur new_row s2 = Inr s'"
          by (subst (asm) valve_update_loop.simps) simp
        from "1.IH"[OF p refl entered(1) False c refl refused(1) loop]
        obtain x tr where IH: "config_data s' = config_data s2"
          "kept cur new_row (worksheet s2) (worksheet s') \<or> applied new_row (worksheet s2) (worksheet s')"
          "prompts s' = prompts s2 @ x # tr" "fst x = ASK_VALVE_CHANGE"
          "rejection_followed_by E ASK_VALVE_CHANGE (x # tr)"
          by blast
        have "config_data s' = config_data s" using IH(1) refused(5) f by simp
        moreover have "kept cur new_row (worksheet s) (worksheet s')
            \<or> applied new_row (worksheet s) (worksheet s')"
          using IH(2) refused(4) f by simp
        moreover have "prompts s' = prompts s @ (ASK_VALVE_CHANGE, l) #
            ([(ASK_NEW_VALVE, l'), (ASK_APPLY_CHANGE, l'')] @ x # tr)"
          using IH(3) refused(3) entered(4) by simp
        moreover have "rejection_followed_by E ASK_VALVE_CHANGE
            ((ASK_VALVE_CHANGE, l) # ([(ASK_NEW_VALVE, l'), (ASK_APPLY_CHANGE, l'')] @ x # tr))"
          using IH(4,5) by simp
        ultimately show ?thesis by (metis fst_conv)
      qed
    qed
  qed
qed

text \<open>When the first answer to the review question is ``no'', the dialogue ends at once.\<close>

lemma valve_update_loop_declined:
  assumes "valve_update_loop E name cur new_row s = Inr s'"
    and "prompts s' = prompts s @ tr"
    and "\<forall>l. (ASK_VALVE_CHANGE, l) \<in> set tr \<longrightarrow> yes_no_of E l = Some False"
  shows "kept cur new_row (worksheet s) (worksheet s')"
proof -
  from assms(1) obtain nv s1 where
    p: "prompt_valve_update E name cur s = Inr (nv, s1)"
    by (subst (asm) valve_update_loop.simps) (auto split: sum.splits)
  note f = prompt_valve_update_frame[OF p]
  from p show ?thesis
  proof (cases rule: prompt_valve_update_cases)
    case (declined l)
    with assms(1) p have "keep_existing_valve_setting new_row cur s1 = Inr s'"
      by (subst (asm) valve_update_loop.simps) simp
    from keep_existing_valve_setting_spec(1)[OF this] f show ?thesis
      by (simp add: kept_def)
  next
    case (entered l l' entry)
    have "\<exists>tr'. prompts s' = prompts s1 @ tr'"
    proof (cases "entry = []")
      case True
      with assms(1) p entered have "keep_existing_valve_setting new_row cur s1 = Inr s'"
        by (subst (asm) valve_update_loop.simps) simp
      from keep_existing_valve_setting_spec(3)[OF this] show ?thesis by simp
    next
      case False
      with assms(1) p entered obtain ok s2 where
        c: "confirm_valve_update E cur entry new_row s1 = Inr (ok, s2)"
        and r: "(if ok then Inr s2 else valve_update_loop E name cur new_row s2) = Inr s'"
        by (subst (asm) valve_update_loop.simps) (auto split: sum.splits)
      from c obtain l'' where c': "prompts s2 = prompts s1 @ [(ASK_APPLY_CHANGE, l'')]"
        by (cases rule: confirm_valve_update_cases) auto
      from r have "\<exists>tr'. prompts s' = prompts s2 @ tr'"
        by (auto split: if_splits dest!: valve_update_loop_spec)
      with c' show ?thesis by auto
    qed
    with entered(4) assms(2) have "(ASK_VALVE_CHANGE, l) \<in> set tr" by auto
    with assms(3) entered(2) show ?thesis by auto
  qed
qed

lemma kept_same_cells:
  "(\<And>r c. cell_at ws1 r c = cell_at ws r c) \<Longrightarrow> kept cur n ws1 ws' = kept cur n ws ws'"
  by (simp add: kept_def)

lemma applied_same_cells:
  "(\<And>r c. cell_at ws1 r c = cell_at ws r c) \<Longrightarrow> applied n ws1 ws' = applied n ws ws'"
  by (simp add: applied_def)

lemma process_valve_setting_update_spec:
  assumes "process_valve_setting_update E old_row new_row s = Inr s'"
  shows "config_data s' = config_data s"
    and "kept (value_at (worksheet s) old_row 8) new_row (worksheet s) (worksheet s')
         \<or> applied new_row (worksheet s) (worksheet s')"
    and "\<exists>x tr. prompts s' = prompts s @ x # tr \<and> fst x = ASK_VALVE_CHANGE
           \<and> rejection_followed_by E ASK_VALVE_CHANGE (x # tr)"
proof -
  from assms obtain name cur s1 where
    g: "get_valve_info old_row s = Inr ((name, cur), s1)"
    and l: "valve_update_loop E name cur new_row s1 = Inr s'"
    by (auto simp: process_valve_setting_update_def)
  note g' = get_valve_info_spec[OF g]
  note l' = valve_update_loop_spec[OF l]
  show "config_data s' = config_data s" using l' g'(3) by simp
  show "kept (value_at (worksheet s) old_row 8) new_row (worksheet s) (worksheet s')
         \<or> applied new_row (worksheet s) (worksheet s')"
    using l' g'(1) kept_same_cells[of "worksheet s1" "worksheet s", OF g'(2)]
      applied_same_cells[of "worksheet s1" "worksheet s", OF g'(2)] by simp
  show "\<exists>x tr. prompts s' = prompts s @ x # tr \<and> fst x = ASK_VALVE_CHANGE
           \<and> rejection_followed_by E ASK_VALVE_CHANGE (x # tr)"
    using l' g'(4) by simp
qed

lemma process_valve_setting_update_declined:
  assumes "process_valve_setting_update E old_row new_row s = Inr s'"
    and "prompts s' = prompts s @ tr"
    and "\<forall>l. (ASK_VALVE_CHANGE, l) \<in> set tr \<longrightarrow> yes_no_of E l = Some False"
  shows "kept (value_at (worksheet s) old_row 8) new_row (worksheet s) (worksheet s')"
proof -
  from assms(1) obtain name cur s1 where
    g: "get_valve_info old_row s = Inr ((name, cur), s1)"
    and l: "valve_update_loop E name cur new_row s1 = Inr s'"
    by (auto simp: process_valve_setting_update_def)
  note g' = get_valve_info_spec[OF g]
  from assms(2) g'(4) have "prompts s' = prompts s1 @ tr" by simp
  from valve_update_loop_declined[OF l this assms(3)] g'(1)
    kept_same_cells[of "worksheet s1" "worksheet s", OF g'(2)]
  show ?thesis by simp
qed

subsection \<open>The carry-forward loop over the radiators\<close>

lemma kept_or_applied_frame:
  "kept cur new_row ws ws' \<or> applied new_row ws ws' \<Longrightarrow>
     (r, c) \<noteq> (new_row, 8) \<Longrightarrow> cell_at ws' r c = cell_at ws r c"
  by (auto simp: kept_def applied_def)

lemma valve_updates_spec_aux:
  fixes E :: "'f env" and s s' :: "'f state"
  shows "valve_updates E is prev start s = Inr s' \<Longrightarrow> distinct is \<Longrightarrow>
    config_data s' = config_data s
    \<and> (\<exists>tr. prompts s' = prompts s @ tr)
    \<and> (\<forall>r c. \<not> (c = 8 \<and> r \<in> (\<lambda>i. start + i) ` set is) \<longrightarrow>
           cell_at (worksheet s') r c = cell_at (worksheet s) r c)
    \<and> (\<forall>i tr. i \<in> set is \<longrightarrow> prev + i \<notin> (\<lambda>j. start + j) ` set is \<longrightarrow>
           prompts s' = prompts s @ tr \<longrightarrow>
           row_outcome (\<forall>l. (ASK_VALVE_CHANGE, l) \<in> set tr \<longrightarrow> yes_no_of E l = Some False)
             (value_at (worksheet s) (prev + i) 8)
             (cell_at (worksheet s) (start + i) 8) (cell_at (worksheet s') (start + i) 8))"
proof (induction "is" arbitrary: s)
  case Nil
  then show ?case by simp
next
  case (Cons i "is")
  note run = Cons.prems(1) and dist = Cons.prems(2)
  from run obtain s1 where
    p: "process_valve_setting_update E (prev + i) (start + i) s = Inr s1"
    and rest: "valve_updates E is prev start s1 = Inr s'"
    by auto
  from dist have dis: "distinct is" and i_new: "i \<notin> set is" by simp_all
  note P = process_valve_setting_update_spec[OF p]
  from Cons.IH[OF rest dis] have IH:
    "config_data s' = config_data s1"
    "\<exists>tr. prompts s' = prompts s1 @ tr"
    "\<And>r c. \<not> (c = 8 \<and> r \<in> (\<lambda>i. start + i) ` set is) \<Longrightarrow>
           cell_at (worksheet s') r c = cell_at (worksheet s1) r c"
    "\<And>i tr. i \<in> set is \<Longrightarrow> prev + i \<notin> (\<lambda>j. start + j) ` set is \<Longrightarrow>
           prompts s' = prompts s1 @ tr \<Longrightarrow>
           row_outcome (\<forall>l. (ASK_VALVE_CHANGE, l) \<in> set tr \<longrightarrow> yes_no_of E l = Some False)
             (value_at (worksheet s1) (prev + i) 8)
             (cell_at (worksheet s1) (start + i) 8) (cell_at (worksheet s') (start + i) 8)"
    by blast+
  from P(3) obtain tr1 where tr1: "prompts s1 = prompts s @ tr1" by blast
  from IH(2) obtain tr2 where tr2: "prompts s' = prompts s1 @ tr2" by blast
  have step_frame: "cell_at (worksheet s1) r c = cell_at (worksheet s) r c"
    if "(r, c) \<noteq> (start + i, 8)" for r c
    using P(2) that by (rule kept_or_applied_frame)
  have cfg: "config_data s' = config_data s" using IH(1) P(1) by simp
  have grow: "\<exists>tr. prompts s' = prompts s @ tr" using tr1 tr2 by simp
  have frame: "cell_at (worksheet s') r c = cell_at (worksheet s) r c"
    if "\<not> (c = 8 \<and> r \<in> (\<lambda>i. start + i) ` set (i # is))" for r c
  proof -
    from that have "\<not> (c = 8 \<and> r \<in> (\<lambda>i. start + i) ` set is)" "(r, c) \<noteq> (start + i, 8)"
      by auto
    then show ?thesis using IH(3)[of c r] step_frame[of r c] by simp
  qed
  have outcome: "row_outcome (\<forall>l. (ASK_VALVE_CHANGE, l) \<in> set tr \<longrightarrow> yes_no_of E l = Some False)
           (value_at (worksheet s) (prev + j) 8)
           (cell_at (worksheet s) (start + j) 8) (cell_at (worksheet s') (start + j) 8)"
    if j: "j \<in> set (i # is)" and free: "prev + j \<notin> (\<lambda>j. start + j) ` set (i # is)"
      and tr: "prompts s' = prompts s @ tr" for j tr
  proof -
    from tr tr1 tr2 have tr_eq: "tr = tr1 @ tr2" by simp
    show ?thesis
    proof (cases "j = i")
      case True
      have "start + i \<notin> (\<lambda>i. start + i) ` set is" using i_new by auto
      then have same: "cell_at (worksheet s') (start + i) 8 = cell_at (worksheet s1) (start + i) 8"
        using IH(3)[of 8 "start + i"] by simp
      show ?thesis
      proof (cases "\<forall>l. (ASK_VALVE_CHANGE, l) \<in> set tr \<longrightarrow> yes_no_of E l = Some False")
        case declined: True
        then have "\<forall>l. (ASK_VALVE_CHANGE, l) \<in> set tr1 \<longrightarrow> yes_no_of E l = Some False"
          by (simp add: tr_eq)
        from process_valve_setting_update_declined[OF p tr1 this]
        show ?thesis using same True by (simp add: row_outcome_def kept_def)
      next
        case False
        with P(2) same True show ?thesis
          by (auto simp: row_outcome_def kept_def applied_def)
      qed
    next
      case False
      with j have j': "j \<in> set is" by simp
      from free have free': "prev + j \<notin> (\<lambda>j. start + j) ` set is" and ne: "prev + j \<noteq> start + i"
        by auto
      have old: "value_at (worksheet s1) (prev + j) 8 = value_at (worksheet s) (prev + j) 8"
        using step_frame[of "prev + j" 8] ne by (simp add: value_at_cell_at)
      have new: "cell_at (worksheet s1) (start + j) 8 = cell_at (worksheet s) (start + j) 8"
        using step_frame[of "start + j" 8] False by simp
      have "row_outcome (\<forall>l. (ASK_VALVE_CHANGE, l) \<in> set tr2 \<longrightarrow> yes_no_of E l = Some False)
           (value_at (worksheet s1) (prev + j) 8)
           (cell_at (worksheet s1) (start + j) 8) (cell_at (worksheet s') (start + j) 8)"
        using j' free' tr2 by (rule IH(4))
      then show ?thesis
        unfolding old new tr_eq by (auto simp: row_outcome_def)
    qed
  qed
  from cfg grow frame outcome show ?case by blast
qed

lemma valve_updates_spec:
  fixes E :: "'f env" and s s' :: "'f state"
  assumes "valve_updates E is prev start s = Inr s'" and "distinct is"
  shows "config_data s' = config_data s"
    and "\<exists>tr. prompts s' = prompts s @ tr"
    and "\<And>r c. \<not> (c = 8 \<and> r \<in> (\<lambda>i. start + i) ` set is) \<Longrightarrow>
           cell_at (worksheet s') r c = cell_at (worksheet s) r c"
    and "\<And>i tr. i \<in> set is \<Longrightarrow> prev + i \<notin> (\<lambda>j. start + j) ` set is \<Longrightarrow>
           prompts s' = prompts s @ tr \<Longrightarrow>
           row_outcome (\<forall>l. (ASK_VALVE_CHANGE, l) \<in> set tr \<longrightarrow> yes_no_of E l = Some False)
             (value_at (worksheet s) (prev + i) 8)
             (cell_at (worksheet s) (start + i) 8) (cell_at (worksheet s') (start + i) 8)"
  using valve_updates_spec_aux[OF assms] by blast+

lemma update_valve_setting_unfold:
  assumes "update_valve_setting E s = Inr s'"
    and "config_data s RADIATORS_OWNED = Some (JInt n)"
    and "config_data s START_ROW = Some (JInt start)"
    and "config_data s LAST_START_ROW = Some (JInt prev)"
  obtains s1 l where "valve_updates E (py_range 0 n) prev start s1 = Inr s'"
    and "worksheet s1 = worksheet s" and "config_data s1 = config_data s"
    and "prompts s1 = prompts s @ [(VALVE_SETTING_UPDATE, l)]"
    and "config_update s1 = config_update s"
proof -
  from assms(1) obtain s1 where d: "display_user_info VALVE_SETTING_UPDATE s = Inr s1"
    and rest: "then_do (get_usage_block_info s1)
          (\<lambda>(radiators_owned, start_row).
             then_do (config_int (config_data s1) LAST_START_ROW)
               (\<lambda>last_start_row.
                  valve_updates E (py_range 0 radiators_owned) last_start_row start_row s1)) = Inr s'"
    by (auto simp: update_valve_setting_def)
  note d' = display_user_info_spec[OF d]
  from assms(2,3) d'(2) have "get_usage_block_info s1 = Inr (n, start)"
    by (simp add: get_usage_block_info_Inr)
  moreover from assms(4) d'(2) have "config_int (config_data s1) LAST_START_ROW = Inr prev"
    by (simp add: config_int_def)
  ultimately have "valve_updates E (py_range 0 n) prev start s1 = Inr s'"
    using rest by simp
  with d' that show thesis by blast
qed

lemma block_rows_image: "(\<lambda>i. start + i) ` set (py_range 0 n) = {start..<start + n}"
proof -
  have "r \<in> (\<lambda>i. start + i) ` {0..<n}" if "start \<le> r" "r < start + n" for r
    using that by (intro image_eqI[where x = "r - start"]) auto
  then show ?thesis by auto
qed

lemma update_valve_setting_spec:
  assumes "update_valve_setting E s = Inr s'"
    and "config_data s RADIATORS_OWNED = Some (JInt n)"
    and "config_data s START_ROW = Some (JInt start)"
    and "config_data s LAST_START_ROW = Some (JInt prev)"
  shows "config_data s' = config_data s"
    and "\<And>r c. \<not> (c = 8 \<and> start \<le> r \<and> r < start + n) \<Longrightarrow>
           cell_at (worksheet s') r c = cell_at (worksheet s) r c"
    and "\<And>i tr. 0 \<le> i \<Longrightarrow> i < n \<Longrightarrow> prev + i < start \<Longrightarrow> prompts s' = prompts s @ tr \<Longrightarrow>
           row_outcome (\<forall>l. (ASK_VALVE_CHANGE, l) \<in> set tr \<longrightarrow> yes_no_of E l = Some False)
             (value_at (worksheet s) (prev + i) 8)
             (cell_at (worksheet s) (start + i) 8) (cell_at (worksheet s') (start + i) 8)"
proof -
  from assms obtain s1 l where
    run: "valve_updates E (py_range 0 n) prev start s1 = Inr s'"
    and s1: "worksheet s1 = worksheet s" "config_data s1 = config_data s"
      "prompts s1 = prompts s @ [(VALVE_SETTING_UPDATE, l)]"
    by (rule update_valve_setting_unfold)
  note V = valve_updates_spec[OF run distinct_py_range, unfolded block_rows_image s1]
  show "config_data s' = config_data s" by (rule V(1))
  show "cell_at (worksheet s') r c = cell_at (worksheet s) r c"
    if "\<not> (c = 8 \<and> start \<le> r \<and> r < start + n)" for r c
    using V(3)[of c r] that by simp
  show "row_outcome (\<forall>l. (ASK_VALVE_CHANGE, l) \<in> set tr \<longrightarrow> yes_no_of E l = Some False)
             (value_at (worksheet s) (prev + i) 8)
             (cell_at (worksheet s) (start + i) 8) (cell_at (worksheet s') (start + i) 8)"
    if i: "0 \<le> i" "i < n" "prev + i < start" and tr: "prompts s' = prompts s @ tr" for i tr
  proof -
    from V(2) obtain tr' where tr': "prompts s' = (prompts s @ [(VALVE_SETTING_UPDATE, l)]) @ tr'"
      by blast
    with tr have tr_eq: "tr = (VALVE_SETTING_UPDATE, l) # tr'" by simp
    have "i \<in> set (py_range 0 n)" using i by simp
    moreover have "prev + i \<notin> {start..<start + n}" using i by simp
    ultimately have "row_outcome (\<forall>l. (ASK_VALVE_CHANGE, l) \<in> set tr' \<longrightarrow> yes_no_of E l = Some False)
             (value_at (worksheet s) (prev + i) 8)
             (cell_at (worksheet s) (start + i) 8) (cell_at (worksheet s') (start + i) 8)"
      using tr' by (rule V(4))
    then show ?thesis by (simp add: tr_eq)
  qed
qed

subsection \<open>Columns filled from the console\<close>


lemma recap_rows_spec:
  "recap_rows rows col s = Inr s' \<Longrightarrow>
     (\<forall>r c. cell_at (worksheet s') r c = cell_at (worksheet s) r c)
     \<and> config_data s' = config_data s \<and> stdin s' = stdin s \<and> prompts s' = prompts s"
proof (induction rows arbitrary: s)
  case Nil
  then show ?case by simp
next
  case (Cons row rows)
  from Cons.prems obtain a s1 b s2 where
    r1: "read_cell row 2 s = Inr (a, s1)" and r2: "read_cell row col s1 = Inr (b, s2)"
    and f: "recap_rows rows col s2 = Inr s'"
    by auto
  from Cons.IH[OF f] read_cell_spec(2-5)[OF r1] read_cell_spec(2-5)[OF r2]
  show ?case by simp
qed




lemma add_valve_setting_note_spec:
  assumes "add_valve_setting_note s = Inr s'"
  shows "cell_at (worksheet s') r c = cell_at (worksheet s) r c"
    and "config_data s' = config_data s"
    and "merged_cells (worksheet s') = merged_cells (worksheet s)"
    and "rows_of (worksheet s') = insert 1 (rows_of (worksheet s))"
    and "config_update s' = config_update s"
proof -
  from assms obtain ws where c: "ws_cell (worksheet s) 1 8 NoneV = Inr ws"
    and r: "(case map_of (cells ws) (1, 8) of
                Some MergedCell \<Rightarrow> Inl AttributeError
              | _ \<Rightarrow> Inr (s\<lparr>worksheet := ws\<lparr>comments :=
                      AList.update (1, 8) ''NOTE:\<newline>Numbers saved as text. Excel warning expected.''
                        (comments ws)\<rparr>\<rparr>)) = Inr s'"
    by (auto simp: add_valve_setting_note_def)
  from r have s': "s' = s\<lparr>worksheet := ws\<lparr>comments :=
                      AList.update (1, 8) ''NOTE:\<newline>Numbers saved as text. Excel warning expected.''
                        (comments ws)\<rparr>\<rparr>"
    by (cases "map_of (cells ws) (1, 8)") (auto split: cell.splits)
  have "cell_at (worksheet s') r c = cell_at ws r c" by (simp add: s' cell_at_def)
  then show "cell_at (worksheet s') r c = cell_at (worksheet s) r c"
    by (simp add: ws_cell_cell_at[OF c])
  show "config_data s' = config_data s" by (simp add: s')
  show "merged_cells (worksheet s') = merged_cells (worksheet s)"
    using ws_cell_fields[OF c] by (simp add: s')
  have "rows_of (worksheet s') = rows_of ws" by (simp add: s' rows_of_def)
  then show "rows_of (worksheet s') = insert 1 (rows_of (worksheet s))"
    by (simp add: ws_cell_rows_of[OF c])
  show "config_update s' = config_update s" by (simp add: s')
qed



subsection \<open>Footprints\<close>

lemma ws_effect_same: "ws_effect {} {} ws ws"
  by (simp add: ws_effect_def)

lemma ws_effect_trans:
  "ws_effect W R ws ws1 \<Longrightarrow> ws_effect W' R' ws1 ws2 \<Longrightarrow> ws_effect (W \<union> W') (R \<union> R') ws ws2"
  unfolding ws_effect_def by (intro conjI) (simp, blast, blast, blast)

lemma ws_effect_mono:
  "ws_effect W R ws ws' \<Longrightarrow> W \<subseteq> W' \<Longrightarrow> R \<subseteq> R' \<Longrightarrow> ws_effect W' R' ws ws'"
  unfolding ws_effect_def by (intro conjI) (blast, blast, blast, blast)

lemma ws_effect_read_rows: "ws_effect W R ws ws' \<Longrightarrow> R \<subseteq> W \<Longrightarrow> ws_effect W {} ws ws'"
  unfolding ws_effect_def by (intro conjI) (blast, blast, blast, blast)

lemma ws_effect_merged: "ws_effect W R ws ws' \<Longrightarrow> set (merged_cells ws) \<subseteq> set (merged_cells ws')"
  by (simp add: ws_effect_def)

lemma ws_effect_cell: "ws_effect W R ws ws' \<Longrightarrow> r \<notin> W \<Longrightarrow> cell_at ws' r c = cell_at ws r c"
  by (simp add: ws_effect_def)

lemma effect_same:
  "worksheet s' = worksheet s \<Longrightarrow> config_data s' = config_data s \<Longrightarrow>
     config_update s' = config_update s \<Longrightarrow> effect {} {} s s'"
  by (simp add: effect_def ws_effect_same)

lemma effect_trans:
  "effect W R s s1 \<Longrightarrow> effect W' R' s1 s2 \<Longrightarrow> effect (W \<union> W') (R \<union> R') s s2"
  by (auto simp: effect_def intro: ws_effect_trans)

lemma effect_mono: "effect W R s s' \<Longrightarrow> W \<subseteq> W' \<Longrightarrow> R \<subseteq> R' \<Longrightarrow> effect W' R' s s'"
  by (auto simp: effect_def intro: ws_effect_mono)

lemma effect_read_rows: "effect W R s s' \<Longrightarrow> R \<subseteq> W \<Longrightarrow> effect W {} s s'"
  by (auto simp: effect_def intro: ws_effect_read_rows)

lemma effect_config: "effect W R s s' \<Longrightarrow> config_data s' = config_data s"
  by (simp add: effect_def)

lemma effect_config_update: "effect W R s s' \<Longrightarrow> config_update s' = config_update s"
  by (simp add: effect_def)

lemma ws_cell_effect:
  assumes "ws_cell ws r c v = Inr ws'"
  shows "ws_effect (if v = NoneV then {} else {r}) {r} ws ws'"
  unfolding ws_effect_def
  using ws_cell_cell_at[OF assms] ws_cell_rows_of[OF assms] ws_cell_rows_ge[OF assms]
    ws_cell_fields[OF assms]
  by auto

lemma ws_cell_write_effect: "ws_cell ws r c v = Inr ws' \<Longrightarrow> ws_effect {r} {} ws ws'"
proof -
  assume "ws_cell ws r c v = Inr ws'"
  then have "ws_effect (if v = NoneV then {} else {r}) {r} ws ws'" by (rule ws_cell_effect)
  then have "ws_effect {r} {r} ws ws'" by (rule ws_effect_mono) (simp_all split: if_splits)
  then show ?thesis by (rule ws_effect_read_rows) simp
qed

lemma read_cell_effect: "read_cell r c s = Inr (v, s') \<Longrightarrow> effect {} {r} s s'"
  by (auto simp: read_cell_def effect_def dest: ws_cell_effect)

lemma write_cell_effect: "write_cell r c v s = Inr s' \<Longrightarrow> effect {r} {} s s'"
  by (auto simp: write_cell_def effect_def dest: ws_cell_write_effect)

lemma max_row_mono: "ws_effect W R ws ws' \<Longrightarrow> max_row ws \<le> max_row ws'"
proof -
  assume e: "ws_effect W R ws ws'"
  then have sub: "rows_of ws \<subseteq> rows_of ws'"
    and new: "rows_of ws' \<subseteq> rows_of ws \<union> {r \<in> W \<union> R. 1 \<le> r}"
    by (simp_all add: ws_effect_def)
  show ?thesis
  proof (cases "rows_of ws = {}")
    case True
    show ?thesis
    proof (cases "rows_of ws' = {}")
      case False
      then obtain r where r: "r \<in> rows_of ws'" by blast
      with new True have "1 \<le> r" by auto
      also have "r \<le> Max (rows_of ws')" using r by simp
      finally show ?thesis using True False by (simp add: max_row_rows_of)
    qed (simp add: max_row_rows_of True)
  next
    case False
    with sub have "rows_of ws' \<noteq> {}" by blast
    with False sub have "Max (rows_of ws) \<le> Max (rows_of ws')"
      by (intro Max_mono) simp_all
    with False \<open>rows_of ws' \<noteq> {}\<close> show ?thesis by (simp add: max_row_rows_of)
  qed
qed

lemma max_row_bound:
  assumes "ws_effect W R ws ws'" and "\<forall>r\<in>W \<union> R. r \<le> hi" and "max_row ws \<le> hi"
  shows "max_row ws' \<le> hi"
proof (cases "rows_of ws' = {}")
  case True
  with assms(1) have "rows_of ws = {}" by (auto simp: ws_effect_def)
  with True assms(3) show ?thesis by (simp add: max_row_rows_of)
next
  case False
  have "r \<le> hi" if "r \<in> rows_of ws'" for r
  proof (cases "r \<in> rows_of ws")
    case True
    then have "r \<le> max_row ws" by (auto simp: max_row_rows_of)
    with assms(3) show ?thesis by simp
  next
    case False
    with that assms(1) have "r \<in> W \<union> R" by (auto simp: ws_effect_def)
    with assms(2) show ?thesis by blast
  qed
  with False show ?thesis by (simp add: max_row_rows_of)
qed

lemma max_row_ge: "r \<in> rows_of ws \<Longrightarrow> r \<le> max_row ws"
  by (auto simp: max_row_rows_of)

lemma fill_col_effect:
  fixes s s' :: "'f state"
  assumes g: "\<forall>row t v t'. g row t = Inr (v, t') \<longrightarrow> effect {} {row} t t'"
  shows "fill_col rows g col s = Inr s' \<Longrightarrow> effect (set rows) {} s s'"
proof (induction rows arbitrary: s)
  case Nil
  then show ?case by (simp add: effect_same)
next
  case (Cons row rows)
  from Cons.prems obtain v s1 s2 where
    gv: "g row s = Inr (v, s1)" and w: "write_cell row col v s1 = Inr s2"
    and f: "fill_col rows g col s2 = Inr s'"
    by auto
  from g gv have "effect {} {row} s s1" by blast
  from effect_trans[OF effect_trans[OF this write_cell_effect[OF w]] Cons.IH[OF f]]
  show ?case by (auto elim!: effect_read_rows[OF effect_mono])
qed

lemma recap_rows_effect: "recap_rows rows col s = Inr s' \<Longrightarrow> effect {} (set rows) s s'"
proof (induction rows arbitrary: s)
  case Nil
  then show ?case by (simp add: effect_same)
next
  case (Cons row rows)
  from Cons.prems obtain a s1 b s2 where
    r1: "read_cell row 2 s = Inr (a, s1)" and r2: "read_cell row col s1 = Inr (b, s2)"
    and f: "recap_rows rows col s2 = Inr s'"
    by auto
  from effect_trans[OF effect_trans[OF read_cell_effect[OF r1] read_cell_effect[OF r2]] Cons.IH[OF f]]
  show ?case by (auto elim!: effect_mono)
qed

lemma input_effect:
  "inputYesNo E p s = Inr (a, s') \<Longrightarrow> effect {} {} s s'"
  "inputStr E p s = Inr (b, s') \<Longrightarrow> effect {} {} s s'"
  "inputInt E lo hi p s = Inr (k, s') \<Longrightarrow> effect {} {} s s'"
  "display_user_info p s = Inr s' \<Longrightarrow> effect {} {} s s'"
  by (auto intro!: effect_same dest: inputYesNo_spec(1-3) inputStr_spec(1-3) inputInt_spec(1-3)
      display_user_info_spec(1-3))

subsection \<open>Footprints of the steps of a run\<close>

lemma fill_registry_row_effect:
  "fill_registry_row r c vs ws = Inr ws' \<Longrightarrow> ws_effect {r} {} ws ws'"
proof (induction vs arbitrary: c ws)
  case Nil
  then show ?case by (auto intro: ws_effect_mono[OF ws_effect_same])
next
  case (Cons v vs)
  from Cons.prems obtain ws1 where w: "ws_cell ws r c v = Inr ws1"
    and f: "fill_registry_row r (c + 1) vs ws1 = Inr ws'"
    by auto
  from ws_effect_trans[OF ws_cell_write_effect[OF w] Cons.IH[OF f]] show ?case by simp
qed

lemma fill_registry_rows_effect:
  "fill_registry_rows rows ws = Inr ws' \<Longrightarrow>
     ws_effect {max_row ws + 1..max_row ws + int (length rows)} {} ws ws'"
proof (induction rows arbitrary: ws)
  case Nil
  then show ?case by (auto intro: ws_effect_mono[OF ws_effect_same])
next
  case (Cons row rows)
  from Cons.prems obtain ws1 where w: "fill_registry_row (max_row ws + 1) 2 row ws = Inr ws1"
    and f: "fill_registry_rows rows ws1 = Inr ws'"
    by auto
  note e1 = fill_registry_row_effect[OF w]
  have lo: "max_row ws \<le> max_row ws1" using e1 by (rule max_row_mono)
  have hi: "max_row ws1 \<le> max_row ws + 1" using e1 by (rule max_row_bound) simp_all
  from ws_effect_trans[OF e1 Cons.IH[OF f]] show ?case
    by (rule ws_effect_mono) (use lo hi in auto)
qed

lemma fill_registry_data_effect:
  "fill_registry_data E s = Inr s' \<Longrightarrow>
     effect {max_row (worksheet s) + 1..max_row (worksheet s) + int (length (registry_rows E))} {} s s'"
  by (auto simp: fill_registry_data_def effect_def dest: fill_registry_rows_effect)

lemma atLeastLessThan_py_range: "{a..<b} = set (py_range a b)"
  by simp

lemma fill_dates_effect:
  assumes "fill_dates E s = Inr s'"
    and "config_data s RADIATORS_OWNED = Some (JInt n)"
    and "config_data s START_ROW = Some (JInt start)"
  shows "effect {start..start + n} {} s s'"
proof -
  from assms(1) obtain date s1 where
    d: "(case config_data s DATE_INPUT_MODE of
                None \<Rightarrow> Inl KeyError
              | Some mode \<Rightarrow>
                  if mode = JStr ''Auto''
                  then then_do (get_date_automatically E s) (\<lambda>date. Inr (date, s))
                  else get_date_manually E s) = Inr (date, s1)"
    and rest: "then_do (get_usage_block_info s1)
          (\<lambda>(radiators_owned, start_row).
             fill_col (py_range start_row (radiators_owned + start_row + 1))
               (\<lambda>row t. Inr (StrV date, t)) 1 s1) = Inr s'"
    by (auto simp: fill_dates_def)
  have s1: "worksheet s1 = worksheet s \<and> config_data s1 = config_data s
      \<and> config_update s1 = config_update s"
    using d by (auto split: option.splits if_splits dest: get_date_manually_spec)
  from assms(2,3) s1 have "get_usage_block_info s1 = Inr (n, start)"
    by (simp add: get_usage_block_info_Inr)
  with rest have f: "fill_col (py_range start (n + start + 1)) (\<lambda>row t. Inr (StrV date, t)) 1 s1 = Inr s'"
    by simp
  have "\<forall>row t v t'. (\<lambda>row t. Inr (StrV date, t)) row t = Inr (v, t') \<longrightarrow> effect {} {row} t t'"
    by (auto intro: effect_mono[OF effect_same])
  from fill_col_effect[OF this f] s1 have "effect {start..<n + start + 1} {} s s'"
    by (simp add: effect_def)
  moreover have "{start..<n + start + 1} = {start..start + n}" by auto
  ultimately show ?thesis by simp
qed

lemma valve_update_loop_effect:
  "valve_update_loop E name cur new_row s = Inr s' \<Longrightarrow> effect {new_row} {} s s'"
proof (induction E name cur new_row s rule: valve_update_loop.induct)
  case (1 E name cur new_row s)
  from "1.prems" obtain nv s1 where
    p: "prompt_valve_update E name cur s = Inr (nv, s1)"
    by (subst (asm) valve_update_loop.simps) (auto split: sum.splits)
  have e1: "effect {} {} s s1"
    using prompt_valve_update_frame[OF p] by (intro effect_same) simp_all
  have keep: ?case if k: "keep_existing_valve_setting new_row cur s1 = Inr s'"
  proof -
    from k have "effect {new_row} {} s1 s'"
      unfolding keep_existing_valve_setting_def by (rule write_cell_effect)
    from effect_trans[OF e1 this] show ?thesis by simp
  qed
  show ?case
  proof (cases nv)
    case None
    with "1.prems" p have "keep_existing_valve_setting new_row cur s1 = Inr s'"
      by (subst (asm) valve_update_loop.simps) simp
    then show ?thesis by (rule keep)
  next
    case (Some entry)
    show ?thesis
    proof (cases "entry = []")
      case True
      with "1.prems" p Some have "keep_existing_valve_setting new_row cur s1 = Inr s'"
        by (subst (asm) valve_update_loop.simps) simp
      then show ?thesis by (rule keep)
    next
      case False
      with "1.prems" p Some obtain ok s2 where
        c: "confirm_valve_update E cur entry new_row s1 = Inr (ok, s2)"
        and r: "(if ok then Inr s2 else valve_update_loop E name cur new_row s2) = Inr s'"
        by (subst (asm) valve_update_loop.simps) (auto split: sum.splits)
      from c obtain yes sa where y: "inputYesNo E ASK_APPLY_CHANGE s1 = Inr (yes, sa)"
        and w: "(if yes then then_do (write_cell new_row 8 (StrV entry) sa) (\<lambda>s2. Inr (True, s2))
                 else Inr (False, sa)) = Inr (ok, s2)"
        by (auto simp: confirm_valve_update_def)
      have "effect {new_row} {} sa s2"
        using w by (auto split: if_splits dest: write_cell_effect intro: effect_mono[OF effect_same])
      from effect_trans[OF effect_trans[OF e1 input_effect(1)[OF y]] this]
      have e2: "effect {new_row} {} s s2" by simp
      show ?thesis
      proof (cases ok)
        case True
        with r e2 show ?thesis by simp
      next
        case no: False
        with r have "valve_update_loop E name cur new_row s2 = Inr s'" by simp
        from "1.IH"[OF p refl Some False c refl no this] e2 show ?thesis
          by (auto dest: effect_trans)
      qed
    qed
  qed
qed

lemma process_valve_setting_update_effect:
  assumes "process_valve_setting_update E old_row new_row s = Inr s'"
  shows "effect {new_row} {old_row} s s'"
proof -
  from assms obtain name cur s1 where
    g: "get_valve_info old_row s = Inr ((name, cur), s1)"
    and l: "valve_update_loop E name cur new_row s1 = Inr s'"
    by (auto simp: process_valve_setting_update_def)
  from g obtain sa where r1: "read_cell old_row 2 s = Inr (name, sa)"
    and r2: "read_cell old_row 8 sa = Inr (cur, s1)"
    by (auto simp: get_valve_info_def)
  from effect_trans[OF effect_trans[OF read_cell_effect[OF r1] read_cell_effect[OF r2]]
      valve_update_loop_effect[OF l]]
  show ?thesis by simp
qed

lemma valve_updates_effect:
  "valve_updates E is prev start s = Inr s' \<Longrightarrow>
     effect ((\<lambda>i. start + i) ` set is) ((\<lambda>i. prev + i) ` set is) s s'"
proof (induction "is" arbitrary: s)
  case Nil
  then show ?case by (simp add: effect_same)
next
  case (Cons i "is")
  from Cons.prems obtain s1 where
    p: "process_valve_setting_update E (prev + i) (start + i) s = Inr s1"
    and rest: "valve_updates E is prev start s1 = Inr s'"
    by auto
  from effect_trans[OF process_valve_setting_update_effect[OF p] Cons.IH[OF rest]]
  show ?case by simp
qed

lemma update_valve_setting_effect:
  assumes "update_valve_setting E s = Inr s'"
    and "config_data s RADIATORS_OWNED = Some (JInt n)"
    and "config_data s START_ROW = Some (JInt start)"
    and "config_data s LAST_START_ROW = Some (JInt prev)"
  shows "effect {start..<start + n} {prev..<prev + n} s s'"
proof -
  from assms obtain s1 l where
    run: "valve_updates E (py_range 0 n) prev start s1 = Inr s'"
    and s1: "worksheet s1 = worksheet s" "config_data s1 = config_data s"
      "config_update s1 = config_update s"
    by (rule update_valve_setting_unfold)
  from valve_updates_effect[OF run] show ?thesis
    unfolding block_rows_image by (simp add: effect_def s1)
qed

lemma recap_and_edit_column_effect:
  assumes "recap_and_edit_column E label col method s = Inr s'"
    and "config_data s RADIATORS_OWNED = Some (JInt n)"
    and "config_data s START_ROW = Some (JInt start)"
  obtains s2 where "effect {} {start..<start + n} s s2"
    and "length (stdin s2) < length (stdin s)"
    and "s' = s2 \<or> method s2 = Inr s'"
proof -
  from assms(2,3) have "get_usage_block_info s = Inr (n, start)"
    by (simp add: get_usage_block_info_Inr)
  with assms(1) obtain s1 yes s2 where
    r: "recap_rows (py_range start (start + n)) col s = Inr s1"
    and y: "inputYesNo E (ASK_MODIFY label) s1 = Inr (yes, s2)"
    and m: "(if yes then method s2 else Inr s2) = Inr s'"
    by (auto simp: recap_and_edit_column_def)
  from effect_trans[OF recap_rows_effect[OF r] input_effect(1)[OF y]]
  have "effect {} {start..<start + n} s s2" by simp
  moreover have "length (stdin s2) < length (stdin s)"
    using inputYesNo_stdin[OF y] recap_rows_spec[OF r] by simp
  moreover have "s' = s2 \<or> method s2 = Inr s'" using m by (auto split: if_splits)
  ultimately show thesis by (rule that)
qed

lemma get_initial_valve_setting_effect:
  "get_initial_valve_setting E row s = Inr (v, s') \<Longrightarrow> effect {} {row} s s'"
  by (auto simp: get_initial_valve_setting_def
      dest!: read_cell_effect input_effect(2) dest: effect_trans)

lemma get_raw_reading_effect:
  "get_raw_reading E row s = Inr (v, s') \<Longrightarrow> effect {} {row} s s'"
  by (auto simp: get_raw_reading_def
      dest!: read_cell_effect input_effect(3) dest: effect_trans)

lemma compute_actual_value_effect:
  "compute_actual_value E row s = Inr (v, s') \<Longrightarrow> effect {} {row} s s'"
  by (auto simp: compute_actual_value_def dest!: read_cell_effect dest: effect_trans)

lemma enter_initial_valve_settings_effect:
  fixes s s' :: "'f state"
  shows "enter_initial_valve_settings E s = Inr s' \<Longrightarrow>
     config_data s RADIATORS_OWNED = Some (JInt n) \<Longrightarrow>
     config_data s START_ROW = Some (JInt start) \<Longrightarrow>
     effect {start..<start + n} {} s s'"
proof (induction E s arbitrary: s' rule: enter_initial_valve_settings.induct)
  case (1 E s)
  note cfg = "1.prems"(2,3)
  from "1.prems"(1) obtain s1 where d: "display_user_info VALVE_SETTING_ENTRY s = Inr s1"
    and rest: "then_do (get_usage_block_info s1)
          (\<lambda>(radiators_owned, start_row).
             then_do (fill_col (py_range start_row (start_row + radiators_owned))
                        (get_initial_valve_setting E) 8 s1)
               (\<lambda>s2. recap_and_edit_column E ''valve setting'' 8
                        (\<lambda>t. enter_initial_valve_settings E t) s2)) = Inr s'"
    by (subst (asm) enter_initial_valve_settings.simps) auto
  note e1 = input_effect(4)[OF d]
  from cfg effect_config[OF e1] have info: "get_usage_block_info s1 = Inr (n, start)"
    by (simp add: get_usage_block_info_Inr)
  with rest obtain s2 where
    f: "fill_col (py_range start (start + n)) (get_initial_valve_setting E) 8 s1 = Inr s2"
    and rc: "recap_and_edit_column E ''valve setting'' 8
                        (\<lambda>t. enter_initial_valve_settings E t) s2 = Inr s'"
    by auto
  have "\<forall>row t v t'. get_initial_valve_setting E row t = Inr (v, t') \<longrightarrow> effect {} {row} t t'"
    using get_initial_valve_setting_effect by blast
  from effect_trans[OF e1 fill_col_effect[OF this f]]
  have e2: "effect {start..<start + n} {} s s2" by simp
  have cfg2: "config_data s2 RADIATORS_OWNED = Some (JInt n)"
    "config_data s2 START_ROW = Some (JInt start)"
    using cfg effect_config[OF e2] by simp_all
  from rc cfg2 show ?case
  proof (cases rule: recap_and_edit_column_effect)
    case (1 s3)
    from effect_trans[OF e2 1(1)] have e3: "effect {start..<start + n} {} s s3"
      by (rule effect_read_rows[OF effect_mono]) auto
    from 1(3) show ?thesis
    proof
      assume "s' = s3"
      with e3 show ?thesis by simp
    next
      assume again: "enter_initial_valve_settings E s3 = Inr s'"
      have cfg3: "config_data s3 RADIATORS_OWNED = Some (JInt n)"
        "config_data s3 START_ROW = Some (JInt start)"
        using cfg effect_config[OF e3] by simp_all
      from effect_trans[OF e3 "1.IH"[OF d info refl f 1(2) again cfg3]]
      show ?thesis by simp
    qed
  qed
qed

lemma get_raw_readings_effect:
  fixes s s' :: "'f state"
  shows "get_raw_readings E s = Inr s' \<Longrightarrow>
     config_data s RADIATORS_OWNED = Some (JInt n) \<Longrightarrow>
     config_data s START_ROW = Some (JInt start) \<Longrightarrow>
     effect {start..<start + n} {} s s'"
proof (induction E s arbitrary: s' rule: get_raw_readings.induct)
  case (1 E s)
  note cfg = "1.prems"(2,3)
  from cfg have info: "get_usage_block_info s = Inr (n, start)"
    by (simp add: get_usage_block_info_Inr)
  with "1.prems"(1) obtain s2 where
    f: "fill_col (py_range start (start + n)) (get_raw_reading E) 5 s = Inr s2"
    and rc: "recap_and_edit_column E ''raw reading'' 5 (\<lambda>t. get_raw_readings E t) s2 = Inr s'"
    by (subst (asm) get_raw_readings.simps) auto
  have "\<forall>row t v t'. get_raw_reading E row t = Inr (v, t') \<longrightarrow> effect {} {row} t t'"
    using get_raw_reading_effect by blast
  from fill_col_effect[OF this f]
  have e2: "effect {start..<start + n} {} s s2" by simp
  have cfg2: "config_data s2 RADIATORS_OWNED = Some (JInt n)"
    "config_data s2 START_ROW = Some (JInt start)"
    using cfg effect_config[OF e2] by simp_all
  from rc cfg2 show ?case
  proof (cases rule: recap_and_edit_column_effect)
    case (1 s3)
    from effect_trans[OF e2 1(1)] have e3: "effect {start..<start + n} {} s s3"
      by (rule effect_read_rows[OF effect_mono]) auto
    from 1(3) show ?thesis
    proof
      assume "s' = s3"
      with e3 show ?thesis by simp
    next
      assume again: "get_raw_readings E s3 = Inr s'"
      have cfg3: "config_data s3 RADIATORS_OWNED = Some (JInt n)"
        "config_data s3 START_ROW = Some (JInt start)"
        using cfg effect_config[OF e3] by simp_all
      from effect_trans[OF e3 "1.IH"[OF info refl f 1(2) again cfg3]]
      show ?thesis by simp
    qed
  qed
qed

lemma add_valve_setting_note_effect:
  assumes "add_valve_setting_note s = Inr s'"
  shows "effect {} {1} s s'"
  unfolding effect_def ws_effect_def
  using add_valve_setting_note_spec[OF assms] by auto

lemma manage_valve_settings_effect:
  assumes "manage_valve_settings E s = Inr s'"
    and "config_data s RADIATORS_OWNED = Some (JInt n)"
    and "config_data s START_ROW = Some (JInt start)"
  shows "\<exists>R. effect {start..<start + n} R s s'
           \<and> (\<not> file_exists E \<longrightarrow> R = {1})
           \<and> (\<forall>prev. config_data s LAST_START_ROW = Some (JInt prev) \<longrightarrow> file_exists E \<longrightarrow>
                 R = {prev..<prev + n})"
proof (cases "file_exists E")
  case False
  with assms(1) obtain s1 where e: "enter_initial_valve_settings E s = Inr s1"
    and a: "add_valve_setting_note s1 = Inr s'"
    by (auto simp: manage_valve_settings_def)
  from effect_trans[OF enter_initial_valve_settings_effect[OF e assms(2,3)]
      add_valve_setting_note_effect[OF a]]
  have "effect {start..<start + n} {1} s s'" by simp
  with False show ?thesis by blast
next
  case True
  with assms(1) have u: "update_valve_setting E s = Inr s'"
    by (simp add: manage_valve_settings_def)
  then obtain s1 prev where d: "display_user_info VALVE_SETTING_UPDATE s = Inr s1"
    and c: "config_int (config_data s1) LAST_START_ROW = Inr prev"
    by (auto simp: update_valve_setting_def)
  from c have "config_data s1 LAST_START_ROW = Some (JInt prev)"
    by (auto simp: config_int_def split: option.splits json.splits)
  then have p: "config_data s LAST_START_ROW = Some (JInt prev)"
    by (simp add: display_user_info_spec(2)[OF d])
  from update_valve_setting_effect[OF u assms(2,3) p] True p show ?thesis by auto
qed

lemma get_actual_values_effect:
  assumes "get_actual_values E s = Inr s'"
    and "config_data s RADIATORS_OWNED = Some (JInt n)"
    and "config_data s START_ROW = Some (JInt start)"
  shows "effect {start..<start + n} {} s s'"
proof -
  from assms(2,3) have "get_usage_block_info s = Inr (n, start)"
    by (simp add: get_usage_block_info_Inr)
  with assms(1) have f: "fill_col (py_range start (start + n)) (compute_actual_value E) 6 s = Inr s'"
    by (simp add: get_actual_values_def)
  have "\<forall>row t v t'. compute_actual_value E row t = Inr (v, t') \<longrightarrow> effect {} {row} t t'"
    using compute_actual_value_effect by blast
  from fill_col_effect[OF this f] show ?thesis by simp
qed

lemma sum_rows_effect: "sum_rows E rows acc s = Inr (t, s') \<Longrightarrow> effect {} (set rows) s s'"
proof (induction rows arbitrary: acc s)
  case Nil
  then show ?case by (simp add: effect_same)
next
  case (Cons row rows)
  from Cons.prems obtain v s1 acc1 where
    r: "read_cell row 6 s = Inr (v, s1)"
    and f: "sum_rows E rows acc1 s1 = Inr (t, s')"
    by auto
  from effect_trans[OF read_cell_effect[OF r] Cons.IH[OF f]] show ?case by simp
qed

lemma get_total_effect:
  assumes "get_total E s = Inr s'"
    and "config_data s RADIATORS_OWNED = Some (JInt n)"
    and "config_data s START_ROW = Some (JInt start)"
  shows "effect {start + n} {start..<start + n} s s'"
    and "start + n \<in> rows_of (worksheet s')"
proof -
  from assms(2,3) have "get_usage_block_info s = Inr (n, start)"
    by (simp add: get_usage_block_info_Inr)
  with assms(1) obtain t s1 where
    sr: "sum_rows E (py_range start (start + n)) (IntV 0) s = Inr (t, s1)"
    and w: "write_cell (start + n) 7 t s1 = Inr s'"
    by (auto simp: get_total_def)
  from effect_trans[OF sum_rows_effect[OF sr] write_cell_effect[OF w]]
  show "effect {start + n} {start..<start + n} s s'" by simp
  from w show "start + n \<in> rows_of (worksheet s')"
    by (auto simp: write_cell_def dest: ws_cell_rows_of)
qed

lemma get_notes_effect:
  assumes "get_notes E s = Inr s'"
    and "config_data s RADIATORS_OWNED = Some (JInt n)"
    and "config_data s START_ROW = Some (JInt start)"
  shows "effect {start..<start + n} {} s s'" and "1 \<le> n" and "1 \<le> start"
proof -
  from assms(1) obtain yes s1 nt s2 s3 where
    y: "inputYesNo E ASK_ADD_NOTE s = Inr (yes, s1)"
    and n: "(if yes then inputStr E ASK_NOTE s1 else Inr (''No additional notes.'', s1)) = Inr (nt, s2)"
    and m: "merge_valve_cells s2 = Inr s3"
    and i: "insert_note nt s3 = Inr s'"
    by (auto simp: get_notes_def)
  have s2: "worksheet s2 = worksheet s" "config_data s2 = config_data s"
    using n inputYesNo_spec(1,2)[OF y] by (auto split: if_splits dest: inputStr_spec(1,2))
  have s2u: "config_update s2 = config_update s"
    using n inputYesNo_spec(3)[OF y] by (auto split: if_splits dest: inputStr_spec(3))
  note m' = merge_valve_cells_spec[OF m, unfolded s2, OF assms(2,3)]
  note M = ws_merge_cells_column[OF m'(1)]
  have cfg3: "config_data s3 START_ROW = Some (JInt start)"
    using m'(2) s2 assms(3) by simp
  note I = insert_note_spec[OF i cfg3]
  show n1: "1 \<le> n" using M(1) by simp
  show "1 \<le> start" by (rule M(2))
  have "ws_effect {start..<start + n} {} (worksheet s) (worksheet s')"
    unfolding ws_effect_def
  proof (intro conjI allI impI)
    fix r c assume "r \<notin> {start..<start + n}"
    with n1 show "cell_at (worksheet s') r c = cell_at (worksheet s) r c"
      by (auto simp: I(1) M(4))
  next
    show "rows_of (worksheet s) \<subseteq> rows_of (worksheet s')"
      by (auto simp: I(5) M(5))
  next
    show "rows_of (worksheet s') \<subseteq> rows_of (worksheet s) \<union> {r \<in> {start..<start + n} \<union> {}. 1 \<le> r}"
      using M(2) n1 by (auto simp: I(5) M(5))
  next
    show "set (merged_cells (worksheet s)) \<subseteq> set (merged_cells (worksheet s'))"
      by (auto simp: I(2) M(3))
  qed
  moreover have "config_data s' = config_data s" using I(6) m'(2) s2 by simp
  moreover have "config_update s' = config_update s" using I(9) m'(5) s2u by simp
  ultimately show "effect {start..<start + n} {} s s'" by (simp add: effect_def)
qed

lemma blank_lines_effect:
  "blank_lines is ws = Inr ws' \<Longrightarrow>
     ws_effect {max_row ws + 1..max_row ws + int (length is)} {} ws ws'
     \<and> max_row ws' = max_row ws + int (length is)
     \<and> (is \<noteq> [] \<longrightarrow> cell_at ws' (max_row ws') 1 = Cell (StrV []))"
proof (induction "is" arbitrary: ws)
  case Nil
  then show ?case by (auto intro: ws_effect_mono[OF ws_effect_same])
next
  case (Cons i "is")
  from Cons.prems obtain ws1 where w: "ws_cell ws (max_row ws + 1) 1 (StrV []) = Inr ws1"
    and f: "blank_lines is ws1 = Inr ws'"
    by auto
  note e1 = ws_cell_write_effect[OF w]
  have m1: "max_row ws1 = max_row ws + 1" using w by (rule ws_cell_max_row_fresh)
  have c1: "cell_at ws1 (max_row ws1) 1 = Cell (StrV [])"
    using ws_cell_cell_at[OF w, of "max_row ws + 1" 1] m1 by simp
  from Cons.IH[OF f] have IH: "ws_effect {max_row ws1 + 1..max_row ws1 + int (length is)} {} ws1 ws'"
    "max_row ws' = max_row ws1 + int (length is)"
    "is \<noteq> [] \<longrightarrow> cell_at ws' (max_row ws') 1 = Cell (StrV [])"
    by blast+
  have "ws_effect {max_row ws + 1..max_row ws + int (length (i # is))} {} ws ws'"
    using ws_effect_trans[OF e1 IH(1)] by (rule ws_effect_mono) (auto simp: m1)
  moreover have "max_row ws' = max_row ws + int (length (i # is))" using IH(2) m1 by simp
  moreover have "cell_at ws' (max_row ws') 1 = Cell (StrV [])"
  proof (cases "is = []")
    case True
    with f c1 show ?thesis by simp
  next
    case False
    with IH(3) show ?thesis by simp
  qed
  ultimately show ?case by simp
qed

lemma add_blank_lines_spec:
  assumes "add_blank_lines s = Inr s'"
  shows "effect {max_row (worksheet s) + 1..max_row (worksheet s) + 3} {} s s'"
    and "max_row (worksheet s') = max_row (worksheet s) + 3"
    and "cell_at (worksheet s') (max_row (worksheet s')) 1 = Cell (StrV [])"
proof -
  from assms obtain ws where b: "blank_lines (py_range 0 3) (worksheet s) = Inr ws"
    and s': "s' = s\<lparr>worksheet := ws\<rparr>"
    by (auto simp: add_blank_lines_def)
  have len: "py_range 0 3 = [0, 1, 2]" by (simp add: py_range_def upto_rec1)
  from blank_lines_effect[OF b] have B:
    "ws_effect {max_row (worksheet s) + 1..max_row (worksheet s) + 3} {} (worksheet s) ws"
    "max_row ws = max_row (worksheet s) + 3"
    "cell_at ws (max_row ws) 1 = Cell (StrV [])"
    unfolding len by auto
  show "effect {max_row (worksheet s) + 1..max_row (worksheet s) + 3} {} s s'"
    using B(1) by (simp add: s' effect_def)
  show "max_row (worksheet s') = max_row (worksheet s) + 3" using B(2) by (simp add: s')
  show "cell_at (worksheet s') (max_row (worksheet s')) 1 = Cell (StrV [])"
    using B(3) by (simp add: s')
qed

subsection \<open>The footprint of a whole run\<close>

lemma effect_weaken:
  "effect W R s s' \<Longrightarrow> W \<subseteq> W' \<Longrightarrow> R \<subseteq> W' \<union> R' \<Longrightarrow> effect W' R' s s'"
  unfolding effect_def ws_effect_def by (intro conjI) (blast, blast, blast, blast, simp, simp)

lemma fill_dates_config:
  assumes "fill_dates E s = Inr s'"
  shows "\<exists>n start. config_data s RADIATORS_OWNED = Some (JInt n)
           \<and> config_data s START_ROW = Some (JInt start)"
proof -
  from assms obtain date s1 n start where
    d: "(case config_data s DATE_INPUT_MODE of
                None \<Rightarrow> Inl KeyError
              | Some mode \<Rightarrow>
                  if mode = JStr ''Auto''
                  then then_do (get_date_automatically E s) (\<lambda>date. Inr (date, s))
                  else get_date_manually E s) = Inr (date, s1)"
    and i: "get_usage_block_info s1 = Inr (n, start)"
    by (auto simp: fill_dates_def)
  have "config_data s1 = config_data s"
    using d by (auto split: option.splits if_splits dest: get_date_manually_spec)
  with i show ?thesis by (simp add: get_usage_block_info_Inr)
qed

lemma update_start_rows_facts:
  "worksheet (update_start_rows s) = worksheet s"
  "config_update (update_start_rows s)"
  "config_data (update_start_rows s) START_ROW = Some (JInt (max_row (worksheet s) + 1))"
  "config_data (update_start_rows s) RADIATORS_OWNED = config_data s RADIATORS_OWNED"
  "config_data (update_start_rows s) LAST_START_ROW =
     Some (case config_data s START_ROW of None \<Rightarrow> JInt (max_row (worksheet s) + 1) | Some v \<Rightarrow> v)"
  by (simp_all add: update_start_rows_def Let_def)

text \<open>
  Up to the blank lines, a run touches the rows of its block (from \<open>start_row\<close> to the
  total row, and the rows the registry data went to) and reads the rows \<open>R\<close>: row 1 on a
  first run, the device rows of the previous block on a later one.
\<close>

lemma populate_usage_footprint:
  fixes s s' :: "'f state"
  assumes "populate_usage E s = Inr s'"
  obtains n R s8 where "config_data s RADIATORS_OWNED = Some (JInt n)" and "1 \<le> n"
    and "effect ({max_row (worksheet s) + 1..max_row (worksheet s) + int (length (registry_rows E))}
                 \<union> {max_row (worksheet s) + 1..max_row (worksheet s) + 1 + n}) R
           (update_start_rows s) s8"
    and "\<not> file_exists E \<Longrightarrow> R = {1}"
    and "\<And>prev. file_exists E \<Longrightarrow> config_data s START_ROW = Some (JInt prev) \<Longrightarrow>
           R = {prev..<prev + n}"
    and "file_exists E \<Longrightarrow> config_data s START_ROW = None \<Longrightarrow>
           R = {max_row (worksheet s) + 1..<max_row (worksheet s) + 1 + n}"
    and "max_row (worksheet s) + 1 + n \<in> rows_of (worksheet s8)"
    and "add_blank_lines s8 = Inr s'"
    and "0 \<le> max_row (worksheet s)"
proof -
  define s0 where "s0 = update_start_rows s"
  define start where "start = max_row (worksheet s) + 1"
  note U = update_start_rows_facts[of s, folded s0_def start_def]
  from assms obtain s1 s2 s3 s4 s5 s6 s7 s8 where
    r1: "fill_registry_data E s0 = Inr s1"
    and r2: "display_data_entry_intro s1 = Inr s2"
    and r3: "fill_dates E s2 = Inr s3"
    and r4: "manage_valve_settings E s3 = Inr s4"
    and r5: "get_raw_readings E s4 = Inr s5"
    and r6: "get_actual_values E s5 = Inr s6"
    and r7: "get_total E s6 = Inr s7"
    and r8: "get_notes E s7 = Inr s8"
    and r9: "add_blank_lines s8 = Inr s'"
    by (auto simp: populate_usage_def s0_def)
  have e1: "effect {start..max_row (worksheet s) + int (length (registry_rows E))} {} s0 s1"
    using fill_registry_data_effect[OF r1] by (simp add: U(1) start_def)
  have e2: "effect {} {} s1 s2"
    using r2 unfolding display_data_entry_intro_def by (rule input_effect(4))
  note c2 = effect_config[OF e2] effect_config[OF e1]
  from fill_dates_config[OF r3] obtain n where n: "config_data s RADIATORS_OWNED = Some (JInt n)"
    by (auto simp: c2 U(4))
  have cfg: "config_data s0 RADIATORS_OWNED = Some (JInt n)"
    "config_data s0 START_ROW = Some (JInt start)"
    using n U(3,4) by simp_all
  have cfg2: "config_data s2 RADIATORS_OWNED = Some (JInt n)"
    "config_data s2 START_ROW = Some (JInt start)"
    using cfg c2 by simp_all
  note e3 = fill_dates_effect[OF r3 cfg2]
  have cfg3: "config_data s3 RADIATORS_OWNED = Some (JInt n)"
    "config_data s3 START_ROW = Some (JInt start)"
    using cfg2 effect_config[OF e3] by simp_all
  from manage_valve_settings_effect[OF r4 cfg3] obtain R where
    e4: "effect {start..<start + n} R s3 s4"
    and R1: "\<not> file_exists E \<longrightarrow> R = {1}"
    and R2: "\<forall>prev. config_data s3 LAST_START_ROW = Some (JInt prev) \<longrightarrow> file_exists E \<longrightarrow>
                 R = {prev..<prev + n}"
    by blast
  have last3: "config_data s3 LAST_START_ROW = config_data s0 LAST_START_ROW"
    using effect_config[OF e3] c2 by simp
  have cfg4: "config_data s4 RADIATORS_OWNED = Some (JInt n)"
    "config_data s4 START_ROW = Some (JInt start)"
    using cfg3 effect_config[OF e4] by simp_all
  note e5 = get_raw_readings_effect[OF r5 cfg4]
  have cfg5: "config_data s5 RADIATORS_OWNED = Some (JInt n)"
    "config_data s5 START_ROW = Some (JInt start)"
    using cfg4 effect_config[OF e5] by simp_all
  note e6 = get_actual_values_effect[OF r6 cfg5]
  have cfg6: "config_data s6 RADIATORS_OWNED = Some (JInt n)"
    "config_data s6 START_ROW = Some (JInt start)"
    using cfg5 effect_config[OF e6] by simp_all
  note e7 = get_total_effect[OF r7 cfg6]
  have cfg7: "config_data s7 RADIATORS_OWNED = Some (JInt n)"
    "config_data s7 START_ROW = Some (JInt start)"
    using cfg6 effect_config[OF e7(1)] by simp_all
  note e8 = get_notes_effect[OF r8 cfg7]
  have total_row: "start + n \<in> rows_of (worksheet s8)"
    using e7(2) e8(1) by (auto simp: effect_def ws_effect_def)
  have big: "effect ({start..max_row (worksheet s) + int (length (registry_rows E))} \<union> {start..start + n}) R s0 s8"
    by (rule effect_weaken[OF effect_trans[OF effect_trans[OF effect_trans[OF effect_trans[OF
          effect_trans[OF effect_trans[OF effect_trans[OF e1 e2] e3] e4] e5] e6] e7(1)] e8(1)]])
      (use e8(2) in auto)
  show thesis
  proof (rule that[of n R s8])
    show "config_data s RADIATORS_OWNED = Some (JInt n)" by (rule n)
    show "1 \<le> n" by (rule e8(2))
    show "effect ({max_row (worksheet s) + 1..max_row (worksheet s) + int (length (registry_rows E))}
                 \<union> {max_row (worksheet s) + 1..max_row (worksheet s) + 1 + n}) R
           (update_start_rows s) s8"
      using big unfolding s0_def start_def .
    show "R = {1}" if "\<not> file_exists E" using R1 that by simp
    show "R = {prev..<prev + n}"
      if "file_exists E" "config_data s START_ROW = Some (JInt prev)" for prev
      using R2 that by (simp add: last3 U(5))
    show "R = {max_row (worksheet s) + 1..<max_row (worksheet s) + 1 + n}"
      if "file_exists E" "config_data s START_ROW = None"
      using R2 that by (simp add: last3 U(5) start_def)
    show "max_row (worksheet s) + 1 + n \<in> rows_of (worksheet s8)"
      using total_row unfolding start_def .
    show "add_blank_lines s8 = Inr s'" by (rule r9)
    show "0 \<le> max_row (worksheet s)" using e8(3) by (simp add: start_def)
  qed
qed

subsection \<open>The sample runs\<close>

lemma first_run_summary:
  "map_sum id run_summary
     (manage_usage (sample_env False) new_workbook
        (sample_state new_workbook sample_config first_run_lines))
   = Inr (sample_ledger, Some (JInt 2), Some (JInt 2), True)"
  by code_simp

lemma second_run_succeeds:
  "succeeded (populate_usage (sample_env True)
     (sample_state sample_ledger sample_block_config second_run_lines))"
  by code_simp

lemma succeededE: "succeeded r \<Longrightarrow> (\<And>x. r = Inr x \<Longrightarrow> P) \<Longrightarrow> P"
  by (cases r) (simp_all add: succeeded_def)

subsection \<open>The height of a block\<close>

lemma populate_usage_config:
  assumes "populate_usage E s = Inr s'"
  shows "config_data s' = config_data (update_start_rows s)" and "config_update s'"
proof -
  from assms obtain n R s8 where
    e: "effect ({max_row (worksheet s) + 1..max_row (worksheet s) + int (length (registry_rows E))}
                 \<union> {max_row (worksheet s) + 1..max_row (worksheet s) + 1 + n}) R
           (update_start_rows s) s8"
    and b: "add_blank_lines s8 = Inr s'"
    by (rule populate_usage_footprint)
  note B = add_blank_lines_spec(1)[OF b]
  show "config_data s' = config_data (update_start_rows s)"
    using effect_config[OF B] effect_config[OF e] by simp
  show "config_update s'"
    using effect_config_update[OF B] effect_config_update[OF e] update_start_rows_facts(2)[of s]
    by simp
qed

lemma populate_usage_max_row:
  assumes r: "populate_usage E s = Inr s'"
    and n: "config_data s RADIATORS_OWNED = Some (JInt n)"
    and len: "int (length (registry_rows E)) \<le> n + 1"
    and prev: "\<not> file_exists E
               \<or> (\<exists>prev. config_data s START_ROW = Some (JInt prev) \<and> prev \<le> max_row (worksheet s) + 2)"
  shows "max_row (worksheet s') = max_row (worksheet s) + 1 + n + 3"
    and "cell_at (worksheet s') (max_row (worksheet s')) 1 = Cell (StrV [])"
proof -
  let ?m = "max_row (worksheet s)"
  from r obtain n' R s8 where
    n': "config_data s RADIATORS_OWNED = Some (JInt n')" and n1: "1 \<le> n'"
    and e: "effect ({?m + 1..?m + int (length (registry_rows E))} \<union> {?m + 1..?m + 1 + n'}) R
           (update_start_rows s) s8"
    and R1: "\<not> file_exists E \<Longrightarrow> R = {1}"
    and R2: "\<And>prev. file_exists E \<Longrightarrow> config_data s START_ROW = Some (JInt prev) \<Longrightarrow>
           R = {prev..<prev + n'}"
    and top: "?m + 1 + n' \<in> rows_of (worksheet s8)"
    and b: "add_blank_lines s8 = Inr s'"
    and m0: "0 \<le> ?m"
    by (rule populate_usage_footprint) blast
  from n n' have nn: "n' = n" by simp
  have e8: "ws_effect ({?m + 1..?m + int (length (registry_rows E))} \<union> {?m + 1..?m + 1 + n}) R
           (worksheet s) (worksheet s8)"
    using e by (simp add: effect_def update_start_rows_facts(1) nn)
  have R: "\<forall>r\<in>R. r \<le> ?m + 1 + n"
  proof (cases "file_exists E")
    case False
    then show ?thesis using R1 m0 n1 nn by simp
  next
    case True
    with prev obtain p where p: "config_data s START_ROW = Some (JInt p)" "p \<le> ?m + 2" by blast
    from R2[OF True p(1)] p(2) show ?thesis by (auto simp: nn)
  qed
  have "max_row (worksheet s8) \<le> ?m + 1 + n"
    using e8 proof (rule max_row_bound)
    show "\<forall>r\<in>{?m + 1..?m + int (length (registry_rows E))} \<union> {?m + 1..?m + 1 + n} \<union> R.
            r \<le> ?m + 1 + n"
      using R len by auto
    show "?m \<le> ?m + 1 + n" using n1 nn by simp
  qed
  moreover have "?m + 1 + n \<le> max_row (worksheet s8)" using top nn by (simp add: max_row_ge)
  ultimately have m8: "max_row (worksheet s8) = ?m + 1 + n" by simp
  note B = add_blank_lines_spec[OF b]
  show "max_row (worksheet s') = ?m + 1 + n + 3" using B(2) m8 by simp
  show "cell_at (worksheet s') (max_row (worksheet s')) 1 = Cell (StrV [])" by (rule B(3))
qed

lemma max_row_save_load:
  assumes "cell_at ws (max_row ws) 1 = Cell (StrV [])"
  shows "max_row (save_load ws) = max_row ws"
proof -
  have sub: "rows_of (save_load ws) \<subseteq> rows_of ws"
    by (force simp: rows_of_def save_load_def)
  from assms have "map_of (cells ws) (max_row ws, 1) = Some (Cell (StrV []))"
    by (simp add: cell_at_def split: option.splits)
  then have "((max_row ws, 1), Cell (StrV [])) \<in> set (cells ws)" by (rule map_of_SomeD)
  then have "((max_row ws, 1), Cell NoneV) \<in> set (cells (save_load ws))"
    by (force simp: save_load_def)
  then have mem: "max_row ws \<in> rows_of (save_load ws)" by (force simp: rows_of_def)
  have fin: "finite (rows_of (save_load ws))" by (simp add: rows_of_def)
  have "Max (rows_of (save_load ws)) = max_row ws"
  proof (rule Max_eqI[OF fin _ mem])
    fix r assume "r \<in> rows_of (save_load ws)"
    with sub have "r \<in> rows_of ws" by blast
    then show "r \<le> max_row ws" by (rule max_row_ge)
  qed
  with mem show ?thesis by (auto simp: max_row_rows_of[of "save_load ws"])
qed

lemma max_row_header_sheet:
  "max_row (ws_append (new_workbook :: 'f worksheet) (map StrV HEADERS)) = 1"
  by (simp add: ws_append_def new_workbook_def HEADERS_def max_row_def)

subsection \<open>The claims\<close>



text \<open>
  Claim C1. After \<^verbatim>\<open>_get_actual_values\<close>, on every device row of the block the value in
  column 6 is the product, by Python's \<^verbatim>\<open>*\<close>, of the coefficient in column 4 and the
  raw reading in column 5, and both factors are the ones the row held before. For an integer
  coefficient the product is the integer product; for a float coefficient it is the float
  product with the reading converted to float.
\<close>

theorem actual_value_is_product:
  assumes "get_actual_values E s = Inr s'"
    and "config_data s RADIATORS_OWNED = Some (JInt n)"
    and "config_data s START_ROW = Some (JInt start)"
    and "start \<le> row" and "row < start + n"
  shows "py_mul E (value_at (worksheet s') row 4) (value_at (worksheet s') row 5)
           = Inr (value_at (worksheet s') row 6)
    \<and> value_at (worksheet s') row 4 = value_at (worksheet s) row 4
    \<and> value_at (worksheet s') row 5 = value_at (worksheet s) row 5
    \<and> (\<forall>a b. value_at (worksheet s) row 4 = IntV a \<and> value_at (worksheet s) row 5 = IntV b
          \<longrightarrow> value_at (worksheet s') row 6 = IntV (a * b))
    \<and> (\<forall>a b y. value_at (worksheet s) row 4 = FloatV a \<and> value_at (worksheet s) row 5 = IntV b
            \<and> f_of_int E b = Some y
          \<longrightarrow> value_at (worksheet s') row 6 = FloatV (fmul E a y))"
proof -
  from assms(2,3) have "get_usage_block_info s = Inr (n, start)"
    by (simp add: get_usage_block_info_Inr)
  with assms(1) have f: "fill_col (py_range start (start + n)) (compute_actual_value E) 6 s = Inr s'"
    by (simp add: get_actual_values_def)
  note F = fill_col_actual_values[OF f]
  from assms(4,5) have "row \<in> set (py_range start (start + n))" by simp
  with F obtain v where
    v: "py_mul E (value_at (worksheet s) row 4) (value_at (worksheet s) row 5) = Inr v"
    and c: "cell_at (worksheet s') row 6 = Cell v"
    by blast
  have 4: "value_at (worksheet s') row 4 = value_at (worksheet s) row 4"
    and 5: "value_at (worksheet s') row 5 = value_at (worksheet s) row 5"
    using F by (simp_all add: value_at_cell_at)
  have 6: "value_at (worksheet s') row 6 = v" using c by (simp add: value_at_cell_at)
  show ?thesis using v 4 5 6 by (auto simp: to_float_def)
qed

theorem actual_value_is_product_witness:
  "(case get_actual_values (sample_env True) (sample_state sample_block sample_block_config []) of
      Inl e \<Rightarrow> False
    | Inr s' \<Rightarrow> value_at (worksheet s') 2 6 = IntV (1 * 10) \<and> value_at (worksheet s') 3 6 = IntV (2 * 7)
        \<and> value_at (worksheet s') 4 6 = IntV (3 * 15))"
proof -
  let ?s = "sample_state sample_block sample_block_config []"
  have cfg: "config_data ?s RADIATORS_OWNED = Some (JInt 3)" "config_data ?s START_ROW = Some (JInt 2)"
    by (simp_all add: sample_state_def sample_block_config_def sample_config_def)
  have vals: "value_at (worksheet ?s) 2 4 = IntV 1" "value_at (worksheet ?s) 2 5 = IntV 10"
    "value_at (worksheet ?s) 3 4 = IntV 2" "value_at (worksheet ?s) 3 5 = IntV 7"
    "value_at (worksheet ?s) 4 4 = IntV 3" "value_at (worksheet ?s) 4 5 = IntV 15"
    by (simp_all add: sample_state_def sample_block_def value_at_def)
  obtain s' where r: "get_actual_values (sample_env True) ?s = Inr s'"
    by (simp add: get_actual_values_def get_usage_block_info_def config_int_def sample_state_def
        sample_block_config_def sample_config_def py_range_def compute_actual_value_def
        read_cell_def write_cell_def ws_cell_def get_cell_def value_at_def sample_block_def
        Let_def upto_rec1)
  from actual_value_is_product[OF r cfg, of 2] actual_value_is_product[OF r cfg, of 3]
    actual_value_is_product[OF r cfg, of 4] vals
  show ?thesis by (simp add: r)
qed

text \<open>
  Claim C2. \<^verbatim>\<open>_get_total\<close> writes one cell: column 7 of the row after the last device row,
  \<open>start_row + radiators_owned\<close>. Its value is Python's \<^verbatim>\<open>sum\<close> of the values that
  column 6 holds on the device rows of the block, from \<open>start_row\<close> to
  \<open>start_row + radiators_owned - 1\<close>; when these are integers it is their sum. Every other
  cell of the worksheet is as before.
\<close>

theorem total_is_sum_of_actual_values:
  assumes "get_total E s = Inr s'"
    and "config_data s RADIATORS_OWNED = Some (JInt n)"
    and "config_data s START_ROW = Some (JInt start)"
  shows "py_sum E (map (\<lambda>r. value_at (worksheet s) r 6) [start..start + n - 1])
           = Inr (value_at (worksheet s') (start + n) 7)
    \<and> value_at (worksheet s') (start + n) 7 \<noteq> NoneV
    \<and> (\<forall>r c. (r, c) \<noteq> (start + n, 7) \<longrightarrow>
          cell_at (worksheet s') r c = cell_at (worksheet s) r c)
    \<and> (\<forall>a. (\<forall>r. start \<le> r \<and> r < start + n \<longrightarrow> value_at (worksheet s) r 6 = IntV (a r))
          \<longrightarrow> value_at (worksheet s') (start + n) 7 = IntV (\<Sum>r = start..<start + n. a r))"
proof -
  let ?rows = "[start..start + n - 1]"
  from assms(2,3) have "get_usage_block_info s = Inr (n, start)"
    by (simp add: get_usage_block_info_Inr)
  with assms(1) obtain t s1 where
    sr: "sum_rows E ?rows (IntV 0) s = Inr (t, s1)"
    and w: "write_cell (start + n) 7 t s1 = Inr s'"
    by (auto simp: get_total_def py_range_def)
  note S = sum_rows_spec[OF sr]
  from S have t: "py_sum E (map (\<lambda>r. value_at (worksheet s) r 6) ?rows) = Inr t"
    by (simp add: py_sum_def)
  then have tn: "t \<noteq> NoneV"
    unfolding py_sum_def by (rule py_sum_from_not_None) simp
  have cells': "cell_at (worksheet s') r c =
      (if r = start + n \<and> c = 7 then Cell t else cell_at (worksheet s) r c)" for r c
    using write_cell_spec(1)[OF w, of r c] tn S by simp
  have total: "value_at (worksheet s') (start + n) 7 = t"
    by (simp add: value_at_cell_at cells')
  have ints: "t = IntV (\<Sum>r = start..<start + n. a r)"
    if a: "\<forall>r. start \<le> r \<and> r < start + n \<longrightarrow> value_at (worksheet s) r 6 = IntV (a r)" for a
  proof -
    have "map (\<lambda>r. value_at (worksheet s) r 6) ?rows = map IntV (map a ?rows)"
      using a by simp
    with t py_sum_from_ints[of E 0 "map a ?rows"] have "t = IntV (sum_list (map a ?rows))"
      by (simp add: py_sum_def)
    also have "sum_list (map a ?rows) = sum a (set ?rows)"
      by (rule sum_set_upto_conv_sum_list_int[symmetric])
    also have "set ?rows = {start..<start + n}" by auto
    finally show ?thesis .
  qed
  from t tn cells' total ints show ?thesis by auto
qed

theorem total_is_sum_of_actual_values_witness:
  "(case get_total (sample_env True) (sample_state sample_block_actual sample_block_config []) of
      Inl e \<Rightarrow> False
    | Inr s' \<Rightarrow> value_at (worksheet s') 5 7 = IntV 69
        \<and> value_at (worksheet s') 4 7 = NoneV \<and> value_at (worksheet s') 4 6 = IntV 45)"
proof -
  let ?s = "sample_state sample_block_actual sample_block_config []"
  have cfg: "config_data ?s RADIATORS_OWNED = Some (JInt 3)" "config_data ?s START_ROW = Some (JInt 2)"
    by (simp_all add: sample_state_def sample_block_config_def sample_config_def)
  have vals: "value_at (worksheet ?s) r 6 = IntV (if r = 2 then 10 else if r = 3 then 14 else 45)"
    if "2 \<le> r \<and> r < 2 + 3" for r
  proof -
    from that have "r = 2 \<or> r = 3 \<or> r = 4" by arith
    then show ?thesis
      by (auto simp: sample_state_def sample_block_actual_def sample_block_def value_at_def)
  qed
  have old: "cell_at (worksheet ?s) 4 7 = Cell NoneV" "cell_at (worksheet ?s) 4 6 = Cell (IntV 45)"
    by (simp_all add: sample_state_def sample_block_actual_def sample_block_def cell_at_def)
  obtain s' where r: "get_total (sample_env True) ?s = Inr s'"
    by (simp add: get_total_def get_usage_block_info_def config_int_def sample_state_def
        sample_block_config_def sample_config_def py_range_def
        read_cell_def write_cell_def ws_cell_def get_cell_def value_at_def sample_block_def
        sample_block_actual_def Let_def upto_rec1)
  have "{2..<2 + 3} = {2::int, 3, 4}" by auto
  then have sum: "(\<Sum>r = (2::int)..<2 + 3. if r = 2 then 10 else if r = 3 then 14 else 45) = (69::int)"
    by (simp only: ) simp
  from total_is_sum_of_actual_values[OF r cfg] vals old sum
  have "value_at (worksheet s') 5 7 = IntV 69 \<and> cell_at (worksheet s') 4 7 = Cell NoneV
    \<and> cell_at (worksheet s') 4 6 = Cell (IntV 45)"
    by auto
  then show ?thesis by (simp add: r value_at_cell_at)
qed



text \<open>
  Claim C9. After \<^verbatim>\<open>_get_notes\<close> the note is the value of one cell of the block, the notes
  column (9) of its first row \<open>start_row\<close>: the line the user typed after answering yes to
  the one question, or the default text after answering no. The range added to the merged
  ranges is rows \<open>start_row\<close> to \<open>start_row + radiators_owned - 1\<close> of column 9, the
  device rows; its other cells are merged cells without a value, and no cell outside it
  changes.
\<close>

theorem notes_once_and_merged:
  assumes "get_notes E s = Inr s'"
    and "config_data s RADIATORS_OWNED = Some (JInt n)"
    and "config_data s START_ROW = Some (JInt start)"
  shows "\<exists>note.
      value_at (worksheet s') start 9 = StrV note
    \<and> (case read_valid (yes_no_of E) (stdin s) of
          None \<Rightarrow> False
        | Some (yes, l, rest) \<Rightarrow>
            if yes then \<exists>l' rest'. read_valid (str_of E) rest = Some (note, l', rest')
            else note = ''No additional notes.'')
    \<and> (\<forall>r. start < r \<and> r < start + n \<longrightarrow>
          cell_at (worksheet s') r 9 = MergedCell \<and> value_at (worksheet s') r 9 = NoneV)
    \<and> merged_cells (worksheet s') =
          List.insert (start, start + n - 1, 9, 9) (merged_cells (worksheet s))
    \<and> 1 \<le> n
    \<and> (\<forall>r c. \<not> (c = 9 \<and> start \<le> r \<and> r < start + n) \<longrightarrow>
          cell_at (worksheet s') r c = cell_at (worksheet s) r c)"
proof -
  from assms(1) obtain yes s1 nt s2 s3 where
    y: "inputYesNo E ASK_ADD_NOTE s = Inr (yes, s1)"
    and n: "(if yes then inputStr E ASK_NOTE s1 else Inr (''No additional notes.'', s1)) = Inr (nt, s2)"
    and m: "merge_valve_cells s2 = Inr s3"
    and i: "insert_note nt s3 = Inr s'"
    by (auto simp: get_notes_def)
  note y' = inputYesNo_spec[OF y]
  have s2: "worksheet s2 = worksheet s" "config_data s2 = config_data s"
    using n y'(1,2) by (auto split: if_splits dest: inputStr_spec(1,2))
  from y'(4) obtain l rest where rest: "read_valid (yes_no_of E) (stdin s) = Some (yes, l, rest)"
    and st1: "stdin s1 = rest" by blast
  have answer: "if yes then \<exists>l' rest'. read_valid (str_of E) rest = Some (nt, l', rest')
            else nt = ''No additional notes.''"
    using n st1 by (auto split: if_splits dest: inputStr_spec(4))
  note m' = merge_valve_cells_spec[OF m, unfolded s2, OF assms(2,3)]
  note M = ws_merge_cells_column[OF m'(1)]
  have cfg3: "config_data s3 START_ROW = Some (JInt start)"
    using m'(2) s2 assms(3) by simp
  note I = insert_note_spec[OF i cfg3]
  have cells': "cell_at (worksheet s') r c =
      (if r = start \<and> c = 9 then Cell (StrV nt)
       else if c = 9 \<and> start < r \<and> r \<le> start + n - 1 then MergedCell
       else cell_at (worksheet s) r c)" for r c
    by (simp add: I(1) M(4))
  have "value_at (worksheet s') start 9 = StrV nt"
    by (simp add: value_at_cell_at cells')
  moreover have "\<forall>r. start < r \<and> r < start + n \<longrightarrow>
          cell_at (worksheet s') r 9 = MergedCell \<and> value_at (worksheet s') r 9 = NoneV"
    by (simp add: value_at_cell_at cells')
  moreover have "merged_cells (worksheet s') =
          List.insert (start, start + n - 1, 9, 9) (merged_cells (worksheet s))"
    by (simp add: I(2) M(3))
  moreover have n1: "1 \<le> n" using M(1) by simp
  moreover have "\<forall>r c. \<not> (c = 9 \<and> start \<le> r \<and> r < start + n) \<longrightarrow>
          cell_at (worksheet s') r c = cell_at (worksheet s) r c"
    using cells' n1 by auto
  ultimately show ?thesis using rest answer by auto
qed

theorem notes_once_and_merged_witness:
  "(case get_notes (sample_env True)
           (sample_state sample_block_actual sample_block_config [''no'']) of
      Inl e \<Rightarrow> False
    | Inr s' \<Rightarrow> value_at (worksheet s') 2 9 = StrV ''No additional notes.''
        \<and> cell_at (worksheet s') 3 9 = MergedCell \<and> cell_at (worksheet s') 4 9 = MergedCell
        \<and> cell_at (worksheet s') 5 9 = Cell NoneV
        \<and> merged_cells (worksheet s') = [(2, 4, 9, 9)])"
proof -
  let ?s = "sample_state sample_block_actual sample_block_config [''no'']"
  have cfg: "config_data ?s RADIATORS_OWNED = Some (JInt 3)" "config_data ?s START_ROW = Some (JInt 2)"
    by (simp_all add: sample_state_def sample_block_config_def sample_config_def)
  have old: "cell_at (worksheet ?s) 5 9 = Cell NoneV" "merged_cells (worksheet ?s) = []"
    by (simp_all add: sample_state_def sample_block_actual_def sample_block_def cell_at_def)
  have inp: "read_valid (yes_no_of (sample_env True)) (stdin ?s) = Some (False, ''no'', [])"
    by (simp add: sample_state_def sample_env_def)
  obtain s' where r: "get_notes (sample_env True) ?s = Inr s'"
    by (simp add: get_notes_def inputYesNo_def ask_def merge_valve_cells_def insert_note_def
        ws_merge_cells_def get_usage_block_info_def config_int_def sample_state_def sample_env_def
        sample_block_config_def sample_config_def
        write_cell_def ws_cell_def get_cell_def sample_block_def sample_block_actual_def
        Let_def upto_rec1)
  from notes_once_and_merged[OF r cfg] inp old
  show ?thesis by (auto simp: r)
qed




text \<open>
  Claim C6. Let \<^verbatim>\<open>_update_valve_setting\<close> return, with every answer the user gave to the
  question ``do you want to change it?'' being ``no''. Then for every ordinal \<open>i\<close> of a
  radiator whose old row \<open>last_start_row + i\<close> lies before the new block, the valve setting
  of row \<open>start_row + i\<close> is the one of row \<open>last_start_row + i\<close>, which is left as it
  was. The new row is one that held no valve setting before, as the rows of a block under
  construction do.
\<close>

theorem declined_changes_copy_previous_block:
  assumes "update_valve_setting E s = Inr s'"
    and "config_data s RADIATORS_OWNED = Some (JInt n)"
    and "config_data s START_ROW = Some (JInt start)"
    and "config_data s LAST_START_ROW = Some (JInt prev)"
    and "prompts s' = prompts s @ tr"
    and "\<forall>l. (ASK_VALVE_CHANGE, l) \<in> set tr \<longrightarrow> yes_no_of E l = Some False"
    and "0 \<le> i" and "i < n" and "prev + i < start"
    and "value_at (worksheet s) (start + i) 8 = NoneV"
  shows "value_at (worksheet s') (start + i) 8 = value_at (worksheet s) (prev + i) 8
    \<and> value_at (worksheet s') (prev + i) 8 = value_at (worksheet s) (prev + i) 8"
proof -
  note U = update_valve_setting_spec[OF assms(1-4)]
  from U(3)[OF assms(7,8,9,5)] assms(6)
  have "cell_at (worksheet s') (start + i) 8 =
      (if value_at (worksheet s) (prev + i) 8 = NoneV then cell_at (worksheet s) (start + i) 8
       else Cell (value_at (worksheet s) (prev + i) 8))"
    by (simp add: row_outcome_def)
  with assms(10) have "value_at (worksheet s') (start + i) 8 = value_at (worksheet s) (prev + i) 8"
    by (simp add: value_at_cell_at split: if_splits)
  moreover have "cell_at (worksheet s') (prev + i) 8 = cell_at (worksheet s) (prev + i) 8"
    using assms(9) by (intro U(2)) simp
  ultimately show ?thesis by (simp add: value_at_cell_at)
qed

theorem declined_changes_copy_previous_block_witness:
  "(case update_valve_setting (sample_env True)
           (sample_state sample_second_run sample_second_config [[], ''no'', ''no'']) of
      Inl e \<Rightarrow> False
    | Inr s' \<Rightarrow> value_at (worksheet s') 7 8 = StrV ''3'' \<and> value_at (worksheet s') 2 8 = StrV ''3'')"
proof -
  let ?s = "sample_state sample_second_run sample_second_config [[], ''no'', ''no'']"
  have cfg: "config_data ?s RADIATORS_OWNED = Some (JInt 2)"
    "config_data ?s START_ROW = Some (JInt 7)" "config_data ?s LAST_START_ROW = Some (JInt 2)"
    by (simp_all add: sample_state_def sample_second_config_def sample_config_def)
  have old: "value_at (worksheet ?s) (2 + 0) 8 = StrV ''3''" "value_at (worksheet ?s) (7 + 0) 8 = NoneV"
    by (simp_all add: sample_state_def sample_second_run_def value_at_def)
  obtain s' where r: "update_valve_setting (sample_env True) ?s = Inr s'"
    and tr: "prompts s' = prompts ?s @
      [(VALVE_SETTING_UPDATE, []), (ASK_VALVE_CHANGE, ''no''), (ASK_VALVE_CHANGE, ''no'')]"
    by (simp add: update_valve_setting_def display_user_info_def get_usage_block_info_def
        config_int_def sample_second_config_def sample_config_def py_range_def upto_rec1
        process_valve_setting_update_def get_valve_info_def valve_update_loop.simps
        prompt_valve_update_def confirm_valve_update_def keep_existing_valve_setting_def
        inputYesNo_def inputStr_def ask_def read_cell_def write_cell_def ws_cell_def get_cell_def
        value_at_def sample_state_def sample_env_def sample_second_run_def Let_def)
  have no: "\<forall>l. (ASK_VALVE_CHANGE, l) \<in> set [(VALVE_SETTING_UPDATE, []), (ASK_VALVE_CHANGE, ''no''),
      (ASK_VALVE_CHANGE, ''no'')] \<longrightarrow> yes_no_of (sample_env True) l = Some False"
    by (simp add: sample_env_def)
  from declined_changes_copy_previous_block[OF r cfg tr no, of 0] old
  show ?thesis by (simp add: r)
qed




text \<open>
  Claim C5. A run of \<^verbatim>\<open>_populate_usage\<close> sets \<open>START_ROW\<close> to the highest row of the
  ledger plus one, and leaves every cell of the rows up to that highest row as it was, in
  value and in kind; the merged ranges that existed remain, and the ledger ends in a higher
  row than before. (The one thing a run attaches to an earlier row is the comment on the
  header cell of the valve column, on a first run; a comment is not part of the cell's
  value.)
\<close>

theorem new_block_leaves_prior_blocks:
  assumes "populate_usage E s = Inr s'"
  shows "config_data s' START_ROW = Some (JInt (max_row (worksheet s) + 1))
    \<and> (\<forall>r c. r < max_row (worksheet s) + 1 \<longrightarrow>
          cell_at (worksheet s') r c = cell_at (worksheet s) r c
          \<and> value_at (worksheet s') r c = value_at (worksheet s) r c)
    \<and> set (merged_cells (worksheet s)) \<subseteq> set (merged_cells (worksheet s'))
    \<and> max_row (worksheet s) < max_row (worksheet s')"
proof -
  from assms obtain n R s8 where
    e: "effect ({max_row (worksheet s) + 1..max_row (worksheet s) + int (length (registry_rows E))}
                 \<union> {max_row (worksheet s) + 1..max_row (worksheet s) + 1 + n}) R
           (update_start_rows s) s8"
    and b: "add_blank_lines s8 = Inr s'"
    by (rule populate_usage_footprint)
  note U = update_start_rows_facts[of s]
  note B = add_blank_lines_spec[OF b]
  from e have e8: "ws_effect ({max_row (worksheet s) + 1..max_row (worksheet s) + int (length (registry_rows E))}
                 \<union> {max_row (worksheet s) + 1..max_row (worksheet s) + 1 + n}) R
           (worksheet s) (worksheet s8)"
    by (simp add: effect_def U(1))
  have m8: "max_row (worksheet s) \<le> max_row (worksheet s8)" using e8 by (rule max_row_mono)
  have cfg: "config_data s' = config_data (update_start_rows s)"
    using effect_config[OF B(1)] effect_config[OF e] by simp
  have cell: "cell_at (worksheet s') r c = cell_at (worksheet s) r c"
    if "r < max_row (worksheet s) + 1" for r c
  proof -
    have "cell_at (worksheet s') r c = cell_at (worksheet s8) r c"
      using B(1) that m8 by (intro ws_effect_cell[where R = "{}"]) (auto simp: effect_def)
    also have "\<dots> = cell_at (worksheet s) r c"
      using e8 that by (intro ws_effect_cell[where R = R]) auto
    finally show ?thesis .
  qed
  have "set (merged_cells (worksheet s)) \<subseteq> set (merged_cells (worksheet s'))"
    using ws_effect_merged[OF e8] B(1) by (auto simp: effect_def dest: ws_effect_merged)
  moreover have "max_row (worksheet s) < max_row (worksheet s')" using B(2) m8 by simp
  moreover have "config_data s' START_ROW = Some (JInt (max_row (worksheet s) + 1))"
    by (simp add: cfg U(3))
  ultimately show ?thesis using cell by (simp add: value_at_cell_at)
qed

theorem new_block_leaves_prior_blocks_witness:
  "(case populate_usage (sample_env True)
           (sample_state sample_ledger sample_block_config second_run_lines) of
      Inl e \<Rightarrow> False
    | Inr s' \<Rightarrow> config_data s' START_ROW = Some (JInt 9)
        \<and> value_at (worksheet s') 2 8 = StrV ''3''
        \<and> value_at (worksheet s') 5 7 = IntV 69
        \<and> cell_at (worksheet s') 3 9 = MergedCell
        \<and> 8 < max_row (worksheet s'))"
proof -
  let ?s = "sample_state sample_ledger sample_block_config second_run_lines"
  have m: "max_row (worksheet ?s) = 8"
    by (simp add: sample_state_def sample_ledger_def max_row_def)
  have old: "cell_at (worksheet ?s) 2 8 = Cell (StrV ''3'')"
    "cell_at (worksheet ?s) 5 7 = Cell (IntV 69)" "cell_at (worksheet ?s) 3 9 = MergedCell"
    by (simp_all add: sample_state_def sample_ledger_def cell_at_def)
  from second_run_succeeds obtain s' where r: "populate_usage (sample_env True) ?s = Inr s'"
    by (rule succeededE)
  from new_block_leaves_prior_blocks[OF r] m old
  show ?thesis by (simp add: r value_at_cell_at)
qed

text \<open>
  Claim C4. A first-ever run, one without a usage file and without a stored \<open>START_ROW\<close>,
  for \<open>n\<close> radiators ends with \<open>START_ROW\<close> and \<open>LAST_START_ROW\<close> both 2, the row under the
  header. The next run, on the workbook and the configuration the first one saved, ends
  with \<open>LAST_START_ROW\<close> 2 and with \<open>START_ROW\<close> \<open>2 + n + 1 + 3\<close>: it starts below the \<open>n\<close>
  device rows, the total row and the three blank rows of the first block, which are cells
  holding an empty string and count for \<^verbatim>\<open>max_row\<close>. For three radiators that is row 9.
\<close>

theorem start_rows_of_two_runs:
  fixes s1 t1 s2 t2 :: "'f state"
  assumes "\<not> file_exists E1"
    and "config_data s1 START_ROW = None"
    and "config_data s1 RADIATORS_OWNED = Some (JInt n)"
    and "int (length (registry_rows E1)) \<le> n"
    and "manage_usage E1 stored s1 = Inr t1"
    and "file_exists E2"
    and "config_data s2 START_ROW = open_config folder (save_config t1 disk) START_ROW"
    and "manage_usage E2 (save_load (worksheet t1)) s2 = Inr t2"
  shows "config_data t1 START_ROW = Some (JInt 2)
    \<and> config_data t1 LAST_START_ROW = Some (JInt 2)
    \<and> config_data t2 START_ROW = Some (JInt (2 + n + 1 + 3))
    \<and> config_data t2 LAST_START_ROW = Some (JInt 2)"
proof -
  define s0 where "s0 = s1\<lparr>worksheet := ws_append (new_workbook :: 'f worksheet) (map StrV HEADERS)\<rparr>"
  have m0: "max_row (worksheet s0) = 1" by (simp add: s0_def max_row_header_sheet)
  have c0: "config_data s0 = config_data s1" by (simp add: s0_def)
  from assms(1,5) have r1: "populate_usage E1 s0 = Inr t1"
    by (simp add: manage_usage_def initialize_usage_sheet_def setup_workbook_def s0_def)
  note U1 = update_start_rows_facts[of s0]
  note C1 = populate_usage_config[OF r1]
  have start1: "config_data t1 START_ROW = Some (JInt 2)" by (simp add: C1(1) U1(3) m0)
  have last1: "config_data t1 LAST_START_ROW = Some (JInt 2)"
    by (simp add: C1(1) U1(5) m0 c0 assms(2))
  have "max_row (worksheet t1) = 1 + 1 + n + 3"
    and top: "cell_at (worksheet t1) (max_row (worksheet t1)) 1 = Cell (StrV [])"
    using populate_usage_max_row[OF r1, of n] assms(1,3,4) by (simp_all add: c0 m0)
  then have m1: "max_row (save_load (worksheet t1)) = n + 5" by (simp add: max_row_save_load)
  define s3 where "s3 = s2\<lparr>worksheet := save_load (worksheet t1)\<rparr>"
  from assms(6,8) have r2: "populate_usage E2 s3 = Inr t2"
    by (simp add: manage_usage_def initialize_usage_sheet_def setup_workbook_def s3_def)
  have c3: "config_data s3 START_ROW = Some (JInt 2)"
    using assms(7) C1(2) start1 by (simp add: s3_def open_config_def save_config_def)
  have m3: "max_row (worksheet s3) = n + 5" by (simp add: s3_def m1)
  note U2 = update_start_rows_facts[of s3]
  note C2 = populate_usage_config[OF r2]
  have "config_data t2 START_ROW = Some (JInt (2 + n + 1 + 3))" by (simp add: C2(1) U2(3) m3)
  moreover have "config_data t2 LAST_START_ROW = Some (JInt 2)" by (simp add: C2(1) U2(5) c3)
  ultimately show ?thesis using start1 last1 by simp
qed

theorem start_rows_of_two_runs_witness:
  "map_sum id start_rows
     (manage_usage (sample_env True) sample_ledger
        (sample_state sample_ledger sample_block_config second_run_lines))
   = Inr (Some (JInt (2 + 3 + 1 + 3)), Some (JInt 2))"
proof -
  let ?E1 = "sample_env False" and ?E2 = "sample_env True"
  let ?s1 = "sample_state new_workbook sample_config first_run_lines"
  let ?s2 = "sample_state sample_ledger sample_block_config second_run_lines"
  from first_run_summary obtain t1 where
    r1: "manage_usage ?E1 new_workbook ?s1 = Inr t1"
    and l1: "save_load (worksheet t1) = sample_ledger"
    and c1: "config_data t1 START_ROW = Some (JInt 2)" and u1: "config_update t1"
    by (cases "manage_usage ?E1 new_workbook ?s1") (auto simp: run_summary_def)
  from second_run_succeeds obtain t2 where "populate_usage ?E2 ?s2 = Inr t2"
    by (rule succeededE)
  then have r2: "manage_usage ?E2 (save_load (worksheet t1)) ?s2 = Inr t2"
    by (simp add: manage_usage_def initialize_usage_sheet_def setup_workbook_def l1
          sample_env_def sample_state_def)
  have "config_data t2 START_ROW = Some (JInt (2 + 3 + 1 + 3))
      \<and> config_data t2 LAST_START_ROW = Some (JInt 2)"
    using start_rows_of_two_runs[of ?E1 ?s1 3 new_workbook t1 ?E2 ?s2 "[]" None t2, OF _ _ _ _ r1 _ _ r2]
    by (simp add: sample_env_def sample_state_def sample_config_def sample_registry_def
          sample_block_config_def open_config_def save_config_def u1 c1)
  then show ?thesis by (simp add: r2[unfolded l1] start_rows_def)
qed

theorem second_start_row_counterexample:
  "map_sum id run_summary
     (manage_usage (sample_env False) new_workbook
        (sample_state new_workbook sample_config first_run_lines))
   = Inr (sample_ledger, Some (JInt 2), Some (JInt 2), True)
   \<and> map_sum id start_rows
       (manage_usage (sample_env True) sample_ledger
          (sample_state sample_ledger sample_block_config second_run_lines))
     = Inr (Some (JInt 9), Some (JInt 2))"
  by code_simp

end
